theory Spec2Isabelle
  imports Main "HOL-Library.Sublist"
begin

section \<open>The agentkernel example servers\<close>

text \<open>
  A shallow embedding of \<^verbatim>\<open>examples/c-app/server.c\<close> and
  \<^verbatim>\<open>examples/c-app/server.cpp\<close>: two single-threaded HTTP servers that
  read one buffer from each accepted connection, look for the text
  \<^verbatim>\<open>GET /health\<close> in it and answer with one of two canned responses.

  Bytes are values of type \<^typ>\<open>char\<close> (all 256 of them), byte sequences are
  lists. What the operating system and the C library do is given by small
  models of \<^verbatim>\<open>read\<close>, \<^verbatim>\<open>write\<close>, \<^verbatim>\<open>strstr\<close>,
  \<^verbatim>\<open>gmtime\<close>, \<^verbatim>\<open>strftime\<close> and \<^verbatim>\<open>snprintf\<close>;
  the clock reading, the bytes a peer has sent and the previous contents of
  the stack are inputs of the handlers.
\<close>

subsection \<open>Bytes, character arrays and C strings\<close>

definition NUL :: char where
  "NUL = CHR 0x00"

definition CRLF :: string where
  "CRLF = [CHR 0x0D, CHR 0x0A]"

definition LF :: string where
  "LF = [CHR 0x0A]"

definition PORT :: int where
  "PORT = 8080"

definition BUFFER_SIZE :: nat where
  "BUFFER_SIZE = 4096"

text \<open>
  An automatic array \<^verbatim>\<open>char a[n]\<close> is not initialised: it holds whatever
  the stack held before. The previous contents are a parameter \<open>junk\<close>; the
  array always has exactly \<open>n\<close> elements.
\<close>

definition auto_array :: "nat \<Rightarrow> string \<Rightarrow> string" where
  "auto_array n junk = take n (junk @ replicate n NUL)"

text \<open>Copying the bytes \<open>s\<close> to the front of the array \<open>a\<close>.\<close>

definition store :: "string \<Rightarrow> string \<Rightarrow> string" where
  "store a s = s @ drop (length s) a"

text \<open>The string a character array holds: the characters before its first NUL.\<close>

definition c_str :: "string \<Rightarrow> string" where
  "c_str a = takeWhile (\<lambda>c. c \<noteq> NUL) a"

definition strlen :: "string \<Rightarrow> nat" where
  "strlen a = length (c_str a)"

text \<open>
  \<^verbatim>\<open>strstr(haystack, needle)\<close>: the offset of the first occurrence of the
  needle in the string held by the haystack array, \<open>None\<close> for the null pointer.
\<close>

fun first_occurrence :: "string \<Rightarrow> string \<Rightarrow> nat option" where
  "first_occurrence [] needle = (if needle = [] then Some 0 else None)"
| "first_occurrence (c # cs) needle =
     (if prefix needle (c # cs) then Some 0
      else map_option Suc (first_occurrence cs needle))"

definition strstr :: "string \<Rightarrow> string \<Rightarrow> nat option" where
  "strstr haystack needle = first_occurrence (c_str haystack) needle"

text \<open>
  \<^verbatim>\<open>std::string::find(str)\<close>: the lowest position \<open>xpos\<close> with
  \<open>xpos + str.size() \<le> size()\<close> at which \<open>str\<close> occurs, \<open>None\<close> for
  \<^verbatim>\<open>npos\<close>.
\<close>

definition std_find :: "string \<Rightarrow> string \<Rightarrow> nat option" where
  "std_find s str =
     List.find (\<lambda>xpos. xpos + length str \<le> length s \<and> take (length str) (drop xpos s) = str)
       [0 ..< Suc (length s)]"

text \<open>
  \<^verbatim>\<open>snprintf(s, n, format, arg)\<close> for formats whose only directive is
  \<^verbatim>\<open>%s\<close>: at most \<open>n - 1\<close> characters of the expansion are stored,
  followed by a NUL.
\<close>

fun expand_s :: "string \<Rightarrow> string \<Rightarrow> string" where
  "expand_s [] arg = []"
| "expand_s [c] arg = [c]"
| "expand_s (c # d # cs) arg =
     (if c = CHR ''%'' \<and> d = CHR ''s'' then arg @ expand_s cs arg
      else c # expand_s (d # cs) arg)"

definition snprintf :: "string \<Rightarrow> nat \<Rightarrow> string \<Rightarrow> string \<Rightarrow> string" where
  "snprintf s n format arg = store s (take (n - 1) (expand_s format arg) @ [NUL])"

subsection \<open>Calendar time\<close>

text \<open>
  \<^verbatim>\<open>struct tm\<close>, with the fields the servers' format string reads.
\<close>

record tm =
  tm_sec :: int
  tm_min :: int
  tm_hour :: int
  tm_mday :: int
  tm_mon :: int
  tm_year :: int

definition INT_MAX :: int where
  "INT_MAX = 2147483647"

definition INT_MIN :: int where
  "INT_MIN = - 2147483648"

text \<open>
  \<^verbatim>\<open>gmtime\<close> converts seconds since 1970-01-01T00:00:00Z to broken-down UTC
  time. The conversion counts days from 2000-03-01, the day after a leap day
  that ends a 400-year cycle, and peels off 400-year, 100-year and 4-year
  cycles and then years and months. The result is the null pointer (\<open>None\<close>)
  when the year does not fit \<^verbatim>\<open>tm_year\<close>, which is an \<^verbatim>\<open>int\<close>.
\<close>

definition LEAPOCH :: int where
  "LEAPOCH = 946684800 + 86400 * (31 + 29)"

definition DAYS_PER_400Y :: int where
  "DAYS_PER_400Y = 365 * 400 + 97"

definition DAYS_PER_100Y :: int where
  "DAYS_PER_100Y = 365 * 100 + 24"

definition DAYS_PER_4Y :: int where
  "DAYS_PER_4Y = 365 * 4 + 1"

text \<open>The lengths of the months from March to February of a leap year.\<close>

definition days_in_month :: "int list" where
  "days_in_month = [31, 30, 31, 30, 31, 31, 30, 31, 30, 31, 31, 29]"

fun month_loop :: "int list \<Rightarrow> int \<Rightarrow> int \<Rightarrow> int \<times> int" where
  "month_loop [] months remdays = (months, remdays)"
| "month_loop (d # ds) months remdays =
     (if d \<le> remdays then month_loop ds (months + 1) (remdays - d)
      else (months, remdays))"

text \<open>
  Peeling off whole cycles of \<open>len\<close> days, at most \<open>cap\<close> of them, so that a
  leap day at the end of a longer cycle stays in the last of its parts.
\<close>

definition split_cycle :: "int \<Rightarrow> int \<Rightarrow> int \<Rightarrow> int \<times> int" where
  "split_cycle len cap remdays =
    (let cycles = min cap (remdays div len) in (cycles, remdays - cycles * len))"

definition gmtime :: "int \<Rightarrow> tm option" where
  "gmtime t =
    (let secs = t - LEAPOCH;
         days = secs div 86400;
         remsecs = secs mod 86400;
         qc_cycles = days div DAYS_PER_400Y;
         remdays = days mod DAYS_PER_400Y;
         (c_cycles, remdays) = split_cycle DAYS_PER_100Y 3 remdays;
         (q_cycles, remdays) = split_cycle DAYS_PER_4Y 24 remdays;
         (remyears, remdays) = split_cycle 365 3 remdays;
         years = remyears + 4 * q_cycles + 100 * c_cycles + 400 * qc_cycles;
         (months, remdays) = month_loop days_in_month 0 remdays;
         (months, years) = (if months \<ge> 10 then (months - 12, years + 1) else (months, years))
     in if years + 100 > INT_MAX \<or> years + 100 < INT_MIN then None
        else Some \<lparr>tm_sec = remsecs mod 60, tm_min = remsecs div 60 mod 60,
                    tm_hour = remsecs div 3600, tm_mday = remdays + 1,
                    tm_mon = months + 2, tm_year = years + 100\<rparr>)"

text \<open>Decimal numerals, as \<^verbatim>\<open>strftime\<close> and \<^verbatim>\<open>printf\<close> write them.\<close>

definition digit_char :: "nat \<Rightarrow> char" where
  "digit_char d = char_of (48 + d)"

function decimal :: "nat \<Rightarrow> string" where
  "decimal n = (if n < 10 then [digit_char n] else decimal (n div 10) @ [digit_char (n mod 10)])"
  by pat_completeness auto
termination
  by (relation "measure id") auto

declare decimal.simps [simp del]

definition show_int :: "int \<Rightarrow> string" where
  "show_int i = (if i < 0 then CHR ''-'' # decimal (nat (- i)) else decimal (nat i))"

definition zero_pad :: "nat \<Rightarrow> string \<Rightarrow> string" where
  "zero_pad w s = replicate (w - length s) (CHR ''0'') @ s"

text \<open>
  The conversions of \<^verbatim>\<open>strftime\<close> that the servers use: \<^verbatim>\<open>%Y\<close> is the
  year as a decimal number, the others are two-digit fields.
\<close>

definition conversion :: "char \<Rightarrow> tm \<Rightarrow> string" where
  "conversion d t =
    (if d = CHR ''Y'' then show_int (tm_year t + 1900)
     else if d = CHR ''m'' then zero_pad 2 (show_int (tm_mon t + 1))
     else if d = CHR ''d'' then zero_pad 2 (show_int (tm_mday t))
     else if d = CHR ''H'' then zero_pad 2 (show_int (tm_hour t))
     else if d = CHR ''M'' then zero_pad 2 (show_int (tm_min t))
     else if d = CHR ''S'' then zero_pad 2 (show_int (tm_sec t))
     else [])"

fun expand_time :: "string \<Rightarrow> tm \<Rightarrow> string" where
  "expand_time [] t = []"
| "expand_time [c] t = (if c = CHR ''%'' then [] else [c])"
| "expand_time (c # d # cs) t =
     (if c = CHR ''%'' then conversion d t @ expand_time cs t
      else c # expand_time (d # cs) t)"

text \<open>
  \<^verbatim>\<open>strftime(s, maxsize, format, t)\<close> stores the expansion and its NUL in
  the array when they fit in \<open>maxsize\<close> characters. Otherwise it returns 0 and
  leaves the array indeterminate: \<open>None\<close>.
\<close>

definition strftime :: "string \<Rightarrow> nat \<Rightarrow> string \<Rightarrow> tm \<Rightarrow> string option" where
  "strftime s maxsize format t =
    (let out = expand_time format t
     in if length out < maxsize then Some (store s (out @ [NUL])) else None)"

text \<open>\<^verbatim>\<open>std::put_time\<close> inserts the same expansion into the stream.\<close>

definition put_time :: "tm \<Rightarrow> string \<Rightarrow> string" where
  "put_time t format = expand_time format t"

subsection \<open>Sockets and the process\<close>

text \<open>
  A connected socket: \<open>rx\<close> is what the next \<^verbatim>\<open>read\<close> finds, \<open>None\<close> when
  the call fails and otherwise the bytes of the peer that are there to be read
  (none at all when the peer has closed); \<open>writes\<close> holds the bytes handed
  to each \<^verbatim>\<open>write\<close> call on the socket, in order. The servers do not look
  at what \<^verbatim>\<open>write\<close> returns.
\<close>

record sock =
  rx :: "string option"
  writes :: "string list"
  is_closed :: bool

text \<open>
  \<^verbatim>\<open>read(fd, buf, count)\<close> returns -1 on failure and otherwise the number
  of bytes it copied to the front of \<open>buf\<close>, never more than \<open>count\<close>.
\<close>

definition sys_read :: "sock \<Rightarrow> string \<Rightarrow> nat \<Rightarrow> int \<times> string \<times> sock" where
  "sys_read fd buf count =
    (case rx fd of
       None \<Rightarrow> (- 1, buf, fd)
     | Some bytes \<Rightarrow>
         (int (length (take count bytes)), store buf (take count bytes),
          fd\<lparr>rx := Some (drop count bytes)\<rparr>))"

definition sys_write :: "sock \<Rightarrow> string \<Rightarrow> nat \<Rightarrow> sock" where
  "sys_write fd buf count = fd\<lparr>writes := writes fd @ [take count buf]\<rparr>"

definition sys_close :: "sock \<Rightarrow> sock" where
  "sys_close fd = fd\<lparr>is_closed := True\<rparr>"

text \<open>Messages on the standard error stream, by the call that wrote them.\<close>

datatype diag = Perror string | Cerr string

text \<open>
  A call either returns or has no defined behaviour: both servers hand the
  result of \<^verbatim>\<open>gmtime\<close> on without looking at it.
\<close>

datatype 'a outcome = Undefined | Returns 'a

subsection \<open>\<^verbatim>\<open>server.c\<close>\<close>

definition TIME_FORMAT :: string where
  "TIME_FORMAT = ''%Y-%m-%dT%H:%M:%SZ''"

definition health_format_c :: string where
  \<open>health_format_c =
     ''HTTP/1.1 200 OK'' @ CRLF @
     ''Content-Type: application/json'' @ CRLF @
     CRLF @
     ''{"status": "ok", "timestamp": "%s"}'' @ LF\<close>

definition default_format_c :: string where
  "default_format_c =
     ''HTTP/1.1 200 OK'' @ CRLF @
     ''Content-Type: text/plain'' @ CRLF @
     CRLF @
     ''Hello from agentkernel sandbox!'' @ LF"

text \<open>
  \<^verbatim>\<open>handle_request\<close> of \<^verbatim>\<open>server.c\<close>. \<open>now\<close> is what
  \<^verbatim>\<open>time(NULL)\<close> returns, \<open>junk\<close> what the stack holds where the three
  arrays \<^verbatim>\<open>buffer\<close>, \<^verbatim>\<open>response\<close> and \<^verbatim>\<open>timestamp\<close> are placed.
  The result is the socket and the messages written to standard error. The
  NUL is stored with a list update, which does nothing at an index outside
  the list; that the index \<open>bytes_read\<close> is inside the array is proved below.
\<close>

definition handle_request_c :: "int \<Rightarrow> string \<Rightarrow> sock \<Rightarrow> (sock \<times> diag list) outcome" where
  "handle_request_c now junk client_socket =
    (let buffer = auto_array BUFFER_SIZE junk;
         response = auto_array BUFFER_SIZE (drop BUFFER_SIZE junk);
         (bytes_read, buffer, client_socket) = sys_read client_socket buffer (BUFFER_SIZE - 1)
     in if bytes_read < 0 then Returns (client_socket, [Perror ''read''])
        else
          let buffer = buffer[nat bytes_read := NUL]
          in if strstr buffer ''GET /health'' \<noteq> None then
               (case gmtime now of
                  None \<Rightarrow> Undefined
                | Some t \<Rightarrow>
                   (case strftime (auto_array 64 (drop (2 * BUFFER_SIZE) junk)) 64 TIME_FORMAT t of
                      None \<Rightarrow> Undefined
                    | Some timestamp \<Rightarrow>
                        let response = snprintf response BUFFER_SIZE health_format_c (c_str timestamp)
                        in Returns (sys_write client_socket response (strlen response), [])))
             else
               let response = snprintf response BUFFER_SIZE default_format_c []
               in Returns (sys_write client_socket response (strlen response), []))"

subsection \<open>\<^verbatim>\<open>server.cpp\<close>\<close>

definition get_timestamp :: "int \<Rightarrow> string outcome" where
  "get_timestamp now =
    (case gmtime now of
       None \<Rightarrow> Undefined
     | Some t \<Rightarrow> Returns (put_time t TIME_FORMAT))"

text \<open>
  \<^verbatim>\<open>handle_request\<close> of \<^verbatim>\<open>server.cpp\<close>. The request and the response
  are \<^verbatim>\<open>std::string\<close>s; \<^verbatim>\<open>response.c_str()\<close> is the response followed
  by a NUL.
\<close>

definition handle_request_cpp :: "int \<Rightarrow> string \<Rightarrow> sock \<Rightarrow> (sock \<times> diag list) outcome" where
  \<open>handle_request_cpp now junk client_socket =
    (let buffer = auto_array BUFFER_SIZE junk;
         (bytes_read, buffer, client_socket) = sys_read client_socket buffer (BUFFER_SIZE - 1)
     in if bytes_read < 0 then Returns (client_socket, [Cerr ''Error reading from socket''])
        else
          let buffer = buffer[nat bytes_read := NUL];
              request = c_str buffer
          in if std_find request ''GET /health'' \<noteq> None then
               (case get_timestamp now of
                  Undefined \<Rightarrow> Undefined
                | Returns timestamp \<Rightarrow>
                    let response =
                          ''HTTP/1.1 200 OK'' @ CRLF @
                          ''Content-Type: application/json'' @ CRLF @
                          CRLF @
                          ''{"status": "ok", "timestamp": "'' @ timestamp @ ''"}'' @ LF
                    in Returns (sys_write client_socket (response @ [NUL]) (length response), []))
             else
               let response =
                     ''HTTP/1.1 200 OK'' @ CRLF @
                     ''Content-Type: text/plain'' @ CRLF @
                     CRLF @
                     ''Hello from agentkernel sandbox!'' @ LF
               in Returns (sys_write client_socket (response @ [NUL]) (length response), []))\<close>

subsection \<open>The accept loops\<close>

text \<open>
  What the operating system answers at start-up: the results of
  \<^verbatim>\<open>socket\<close>, \<^verbatim>\<open>bind\<close> and \<^verbatim>\<open>listen\<close>. The result of
  \<^verbatim>\<open>setsockopt\<close> is not looked at by either server.
\<close>

record startup =
  socket_result :: int
  bind_result :: int
  listen_result :: int

text \<open>
  What one \<^verbatim>\<open>accept\<close> call brings: a failure, or a connected socket
  together with the clock reading and the stack contents that the handler of
  this connection finds.
\<close>

record connection =
  peer :: sock
  clock :: int
  stack_junk :: string

datatype accept_result = Accept_failed | Accepted connection

text \<open>
  The process: \<open>Accepting\<close> while it waits in \<^verbatim>\<open>accept\<close>, \<open>Exited\<close> with
  its exit code, or lost to undefined behaviour. \<open>served\<close> lists the sockets
  that were handled and closed.
\<close>

datatype status = Accepting | Exited int | Undefined_behaviour

record process =
  status :: status
  stdout :: "string list"
  stderr :: "diag list"
  served :: "sock list"

text \<open>
  The \<^verbatim>\<open>while (1)\<close> loop of \<^verbatim>\<open>main\<close>, run on the results of a finite
  number of \<^verbatim>\<open>accept\<close> calls. When they are used up the process is
  blocked in the next \<^verbatim>\<open>accept\<close>. The loop has no \<^verbatim>\<open>break\<close>, so the
  statements after it are never reached.
\<close>

fun accept_loop_c :: "accept_result list \<Rightarrow> process \<Rightarrow> process" where
  "accept_loop_c [] p = p"
| "accept_loop_c (Accept_failed # rest) p =
     accept_loop_c rest (p\<lparr>stderr := stderr p @ [Perror ''accept'']\<rparr>)"
| "accept_loop_c (Accepted c # rest) p =
     (case handle_request_c (clock c) (stack_junk c) (peer c) of
        Undefined \<Rightarrow> p\<lparr>status := Undefined_behaviour\<rparr>
      | Returns (client_socket, msgs) \<Rightarrow>
          accept_loop_c rest
            (p\<lparr>stderr := stderr p @ msgs, served := served p @ [sys_close client_socket]\<rparr>))"

definition main_c :: "startup \<Rightarrow> accept_result list \<Rightarrow> process" where
  "main_c os accepts =
    (let p = \<lparr>status = Accepting, stdout = [], stderr = [], served = []\<rparr>
     in if socket_result os < 0 then p\<lparr>stderr := [Perror ''socket''], status := Exited 1\<rparr>
        else if bind_result os < 0 then p\<lparr>stderr := [Perror ''bind''], status := Exited 1\<rparr>
        else if listen_result os < 0 then p\<lparr>stderr := [Perror ''listen''], status := Exited 1\<rparr>
        else accept_loop_c accepts
               (p\<lparr>stdout := [''C server listening on port '' @ show_int PORT @ LF]\<rparr>))"

fun accept_loop_cpp :: "accept_result list \<Rightarrow> process \<Rightarrow> process" where
  "accept_loop_cpp [] p = p"
| "accept_loop_cpp (Accept_failed # rest) p =
     accept_loop_cpp rest (p\<lparr>stderr := stderr p @ [Cerr ''Accept failed'']\<rparr>)"
| "accept_loop_cpp (Accepted c # rest) p =
     (case handle_request_cpp (clock c) (stack_junk c) (peer c) of
        Undefined \<Rightarrow> p\<lparr>status := Undefined_behaviour\<rparr>
      | Returns (client_socket, msgs) \<Rightarrow>
          accept_loop_cpp rest
            (p\<lparr>stderr := stderr p @ msgs, served := served p @ [sys_close client_socket]\<rparr>))"

definition main_cpp :: "startup \<Rightarrow> accept_result list \<Rightarrow> process" where
  "main_cpp os accepts =
    (let p = \<lparr>status = Accepting, stdout = [], stderr = [], served = []\<rparr>
     in if socket_result os < 0
        then p\<lparr>stderr := [Cerr ''Failed to create socket''], status := Exited 1\<rparr>
        else if bind_result os < 0 then p\<lparr>stderr := [Cerr ''Bind failed''], status := Exited 1\<rparr>
        else if listen_result os < 0 then p\<lparr>stderr := [Cerr ''Listen failed''], status := Exited 1\<rparr>
        else accept_loop_cpp accepts
               (p\<lparr>stdout := [''C++ server listening on port '' @ show_int PORT @ LF]\<rparr>))"

subsection \<open>What a handler decides and what it sends\<close>

text \<open>
  The bytes that the one \<^verbatim>\<open>read\<close> call of a handler obtains from a
  socket, \<open>None\<close> when the call fails.
\<close>

definition received :: "sock \<Rightarrow> string option" where
  "received fd =
    (case sys_read fd (auto_array BUFFER_SIZE []) (BUFFER_SIZE - 1) of
       (bytes_read, buffer, _) \<Rightarrow>
         if bytes_read < 0 then None else Some (take (nat bytes_read) buffer))"

text \<open>
  The branch a handler takes at its test for \<^verbatim>\<open>GET /health\<close>: the
  statements of \<^verbatim>\<open>handle_request\<close> up to that test, \<open>None\<close> when the
  handler has returned before it.
\<close>

datatype route = Health | Default_route

definition route_c :: "string \<Rightarrow> sock \<Rightarrow> route option" where
  "route_c junk client_socket =
    (let buffer = auto_array BUFFER_SIZE junk;
         (bytes_read, buffer, client_socket) = sys_read client_socket buffer (BUFFER_SIZE - 1)
     in if bytes_read < 0 then None
        else
          let buffer = buffer[nat bytes_read := NUL]
          in Some (if strstr buffer ''GET /health'' \<noteq> None then Health else Default_route))"

definition route_cpp :: "string \<Rightarrow> sock \<Rightarrow> route option" where
  "route_cpp junk client_socket =
    (let buffer = auto_array BUFFER_SIZE junk;
         (bytes_read, buffer, client_socket) = sys_read client_socket buffer (BUFFER_SIZE - 1)
     in if bytes_read < 0 then None
        else
          let buffer = buffer[nat bytes_read := NUL];
              request = c_str buffer
          in Some (if std_find request ''GET /health'' \<noteq> None then Health else Default_route))"

text \<open>The \<^verbatim>\<open>write\<close> calls that a handler adds to those already made on the socket.\<close>

definition sent :: "sock \<Rightarrow> (sock \<times> diag list) outcome \<Rightarrow> string list outcome" where
  "sent fd result =
    (case result of
       Undefined \<Rightarrow> Undefined
     | Returns (fd', msgs) \<Rightarrow> Returns (drop (length (writes fd)) (writes fd')))"

text \<open>The connections among the results of the \<^verbatim>\<open>accept\<close> calls, in order.\<close>

fun connections :: "accept_result list \<Rightarrow> connection list" where
  "connections [] = []"
| "connections (Accept_failed # rest) = connections rest"
| "connections (Accepted c # rest) = c # connections rest"

text \<open>
  What the accept loop makes of one connection: the socket it has closed,
  \<open>None\<close> when the handler does not return.
\<close>

definition serve_c :: "connection \<Rightarrow> sock option" where
  "serve_c c =
    (case handle_request_c (clock c) (stack_junk c) (peer c) of
       Undefined \<Rightarrow> None
     | Returns (client_socket, msgs) \<Rightarrow> Some (sys_close client_socket))"

definition serve_cpp :: "connection \<Rightarrow> sock option" where
  "serve_cpp c =
    (case handle_request_cpp (clock c) (stack_junk c) (peer c) of
       Undefined \<Rightarrow> None
     | Returns (client_socket, msgs) \<Rightarrow> Some (sys_close client_socket))"

text \<open>The messages that one iteration of the accept loop writes to standard error.\<close>

fun messages_c :: "accept_result \<Rightarrow> diag list" where
  "messages_c Accept_failed = [Perror ''accept'']"
| "messages_c (Accepted c) =
    (case handle_request_c (clock c) (stack_junk c) (peer c) of
       Undefined \<Rightarrow> []
     | Returns (client_socket, msgs) \<Rightarrow> msgs)"

fun messages_cpp :: "accept_result \<Rightarrow> diag list" where
  "messages_cpp Accept_failed = [Cerr ''Accept failed'']"
| "messages_cpp (Accepted c) =
    (case handle_request_cpp (clock c) (stack_junk c) (peer c) of
       Undefined \<Rightarrow> []
     | Returns (client_socket, msgs) \<Rightarrow> msgs)"

subsection \<open>The responses and the timestamp pattern of the specification\<close>

text \<open>
  A response with status line \<^verbatim>\<open>200 OK\<close>, a \<^verbatim>\<open>Content-Type\<close> header
  and a body.
\<close>

definition http_200 :: "string \<Rightarrow> string \<Rightarrow> string" where
  "http_200 content_type body =
     ''HTTP/1.1 200 OK'' @ CRLF @ ''Content-Type: '' @ content_type @ CRLF @ CRLF @ body"

definition health_response :: "string \<Rightarrow> string" where
  \<open>health_response ts =
     http_200 ''application/json'' (''{"status": "ok", "timestamp": "'' @ ts @ ''"}'' @ LF)\<close>

definition default_response :: string where
  "default_response = http_200 ''text/plain'' (''Hello from agentkernel sandbox!'' @ LF)"

text \<open>
  The pattern \<^verbatim>\<open>YYYY-MM-DDTHH:MM:SSZ\<close>: each of the letters Y, M, D, H and S
  stands for one decimal digit, every other character for itself.
\<close>

definition is_digit :: "char \<Rightarrow> bool" where
  "is_digit c = (48 \<le> (of_char c :: nat) \<and> (of_char c :: nat) \<le> 57)"

fun matches_pattern :: "string \<Rightarrow> string \<Rightarrow> bool" where
  "matches_pattern [] [] = True"
| "matches_pattern (p # ps) (c # cs) =
     ((if p \<in> set ''YMDHS'' then is_digit c else c = p) \<and> matches_pattern ps cs)"
| "matches_pattern [] (c # cs) = False"
| "matches_pattern (p # ps) [] = False"

definition TIMESTAMP_PATTERN :: string where
  "TIMESTAMP_PATTERN = ''YYYY-MM-DDTHH:MM:SSZ''"

text \<open>
  The clock readings from 1000-01-01T00:00:00Z to 9999-12-31T23:59:59Z, the
  times whose year has four digits.
\<close>

definition four_digit_year :: "int \<Rightarrow> bool" where
  "four_digit_year now = (- 30610224000 \<le> now \<and> now < 253402300800)"

text \<open>
  The protocol table of the specification: what is sent back on a connection,
  by the route taken and the clock reading. Nothing is sent when the request
  could not be read.
\<close>

definition reply :: "route option \<Rightarrow> int \<Rightarrow> string list outcome" where
  "reply r now =
    (case r of
       None \<Rightarrow> Returns []
     | Some Default_route \<Rightarrow> Returns [default_response]
     | Some Health \<Rightarrow>
        (case gmtime now of
           None \<Rightarrow> Undefined
         | Some t \<Rightarrow> Returns [health_response (expand_time TIME_FORMAT t)]))"

text \<open>
  The seconds since the Epoch of a broken-down UTC time, by the formula of
  POSIX. The day of the year is that of the calendar date. Division rounds
  down, which is the division of the formula for the years from 1970 on.
\<close>

definition leap_year :: "int \<Rightarrow> bool" where
  "leap_year y = (y mod 4 = 0 \<and> (y mod 100 \<noteq> 0 \<or> y mod 400 = 0))"

definition days_before_month :: "int list" where
  "days_before_month = [0, 31, 59, 90, 120, 151, 181, 212, 243, 273, 304, 334]"

definition yday :: "tm \<Rightarrow> int" where
  "yday x =
     days_before_month ! nat (tm_mon x)
     + (if leap_year (tm_year x + 1900) \<and> 2 \<le> tm_mon x then 1 else 0)
     + tm_mday x - 1"

definition seconds_since_epoch :: "tm \<Rightarrow> int" where
  "seconds_since_epoch x =
     tm_sec x + tm_min x * 60 + tm_hour x * 3600 + yday x * 86400
     + (tm_year x - 70) * 31536000 + ((tm_year x - 69) div 4) * 86400
     - ((tm_year x - 1) div 100) * 86400 + ((tm_year x + 299) div 400) * 86400"

text \<open>The ranges of the fields of a \<^verbatim>\<open>struct tm\<close> that \<^verbatim>\<open>gmtime\<close> fills in.\<close>

definition tm_in_range :: "tm \<Rightarrow> bool" where
  "tm_in_range x =
    (0 \<le> tm_sec x \<and> tm_sec x \<le> 59 \<and> 0 \<le> tm_min x \<and> tm_min x \<le> 59 \<and>
     0 \<le> tm_hour x \<and> tm_hour x \<le> 23 \<and> 1 \<le> tm_mday x \<and> tm_mday x \<le> 31 \<and>
     0 \<le> tm_mon x \<and> tm_mon x \<le> 11 \<and> INT_MIN \<le> tm_year x \<and> tm_year x \<le> INT_MAX)"

text \<open>
  What both handlers do, told without the arrays: \<open>read_failed\<close> is the
  message a handler writes when \<^verbatim>\<open>read\<close> fails.
\<close>

definition reference_handler :: "diag \<Rightarrow> int \<Rightarrow> sock \<Rightarrow> (sock \<times> diag list) outcome" where
  "reference_handler read_failed now fd =
    (case rx fd of
       None \<Rightarrow> Returns (fd, [read_failed])
     | Some bytes \<Rightarrow>
         let fd' = fd\<lparr>rx := Some (drop (BUFFER_SIZE - 1) bytes)\<rparr>
         in if sublist ''GET /health'' (c_str (take (BUFFER_SIZE - 1) bytes)) then
              (case gmtime now of
                 None \<Rightarrow> Undefined
               | Some t \<Rightarrow>
                   Returns (fd'\<lparr>writes := writes fd' @ [health_response (expand_time TIME_FORMAT t)]\<rparr>, []))
            else Returns (fd'\<lparr>writes := writes fd' @ [default_response]\<rparr>, []))"

section \<open>Properties of the library models\<close>

subsection \<open>Arrays, C strings and substring search\<close>

lemma length_auto_array: "length (auto_array n junk) = n"
  by (simp add: auto_array_def)

lemma c_str_append_NUL: "c_str (s @ NUL # rest) = c_str s"
  by (induction s) (simp_all add: c_str_def)

lemma c_str_no_NUL: "NUL \<notin> set s \<Longrightarrow> c_str (s @ NUL # rest) = s"
  by (induction s) (auto simp: c_str_def)

lemma store_terminate:
  assumes "length d < length a"
  shows "(store a d)[length d := NUL] = d @ NUL # drop (Suc (length d)) a"
proof -
  obtain x xs where "drop (length d) a = x # xs" 
    using assms by (cases "drop (length d) a") simp_all
  moreover from this have "xs = drop (Suc (length d)) a"
    by (metis drop_Suc tl_drop list.sel(3))
  ultimately show ?thesis
    by (simp add: store_def list_update_append)
qed

lemma first_occurrence_iff: "first_occurrence h n \<noteq> None \<longleftrightarrow> sublist n h"
  by (induction h) (auto simp: sublist_Cons_right)

lemma strstr_iff: "strstr a n \<noteq> None \<longleftrightarrow> sublist n (c_str a)"
  unfolding strstr_def by (rule first_occurrence_iff)

lemma std_find_iff: "std_find s n \<noteq> None \<longleftrightarrow> sublist n s"
proof
  assume "std_find s n \<noteq> None"
  then obtain k where "k + length n \<le> length s" "take (length n) (drop k s) = n"
    by (auto simp: std_find_def find_None_iff)
  then have "s = take k s @ n @ drop (length n) (drop k s)"
    by (metis append_take_drop_id)
  then show "sublist n s"
    unfolding sublist_def by blast
next
  assume "sublist n s"
  then obtain ps ss where s: "s = ps @ n @ ss"
    by (auto simp: sublist_def)
  then have "length ps + length n \<le> length s" "take (length n) (drop (length ps) s) = n"
    "length ps \<in> set [0 ..< Suc (length s)]"
    by simp_all
  then show "std_find s n \<noteq> None"
    unfolding std_find_def find_None_iff by blast
qed

subsection \<open>Calendar conversion\<close>

lemma month_loop_bounds:
  assumes "0 \<le> r" "r \<le> 365" "month_loop days_in_month 0 r = (m, r')"
  shows "0 \<le> m \<and> m \<le> 11 \<and> 0 \<le> r' \<and> r' \<le> 30 \<and> (10 \<le> m \<longleftrightarrow> 306 \<le> r)"
  using assms by (auto simp: days_in_month_def split: if_splits)

lemma split_100Y:
  assumes "split_cycle DAYS_PER_100Y 3 r = (c, r')" "0 \<le> r" "r < DAYS_PER_400Y"
  shows "0 \<le> c \<and> c \<le> 3 \<and> 0 \<le> r' \<and> r' \<le> 36524 \<and> r = c * 36524 + r' \<and> (c < 3 \<longrightarrow> r' < 36524)"
  using assms by (auto simp: split_cycle_def Let_def DAYS_PER_100Y_def DAYS_PER_400Y_def min_def split: if_splits)

lemma split_4Y:
  assumes "split_cycle DAYS_PER_4Y 24 r = (q, r')" "0 \<le> r" "r \<le> 36524"
  shows "0 \<le> q \<and> q \<le> 24 \<and> 0 \<le> r' \<and> r' \<le> 1460 \<and> r = q * 1461 + r'  \<and> (q < 24 \<longrightarrow> r' < 1461)"
  using assms by (auto simp: split_cycle_def Let_def DAYS_PER_4Y_def min_def split: if_splits)

lemma split_1Y:
  assumes "split_cycle 365 3 r = (y, r')" "0 \<le> r" "r \<le> 1460"
  shows "0 \<le> y \<and> y \<le> 3 \<and> 0 \<le> r' \<and> r' \<le> 365 \<and> r = y * 365 + r' \<and> (y < 3 \<longrightarrow> r' < 365)"
  using assms by (auto simp: split_cycle_def Let_def min_def split: if_splits)

lemma gmtime_unfold:
  fixes t :: int
  defines "secs \<equiv> t - LEAPOCH"
  defines "days \<equiv> secs div 86400"
  defines "remsecs \<equiv> secs mod 86400"
  assumes s1: "split_cycle DAYS_PER_100Y 3 (days mod DAYS_PER_400Y) = (c, rd1)"
      and s2: "split_cycle DAYS_PER_4Y 24 rd1 = (q, rd2)"
      and s3: "split_cycle 365 3 rd2 = (y, rd3)"
      and mloop: "month_loop days_in_month 0 rd3 = (m, r')"
  defines "years \<equiv> y + 4 * q + 100 * c + 400 * (days div DAYS_PER_400Y) + (if 10 \<le> m then 1 else 0)"
  shows "gmtime t =
    (if years + 100 > INT_MAX \<or> years + 100 < INT_MIN then None
     else Some \<lparr>tm_sec = remsecs mod 60, tm_min = remsecs div 60 mod 60,
                 tm_hour = remsecs div 3600, tm_mday = r' + 1,
                 tm_mon = (if 10 \<le> m then m - 12 else m) + 2, tm_year = years + 100\<rparr>)"
proof (cases "10 \<le> m")
  case True
  then show ?thesis
    unfolding gmtime_def Let_def secs_def [symmetric] days_def [symmetric] remsecs_def [symmetric]
      s1 s2 s3 mloop prod.case years_def
    by (simp only: if_True prod.case)
next
  case False
  then show ?thesis
    unfolding gmtime_def Let_def secs_def [symmetric] days_def [symmetric] remsecs_def [symmetric]
      s1 s2 s3 mloop prod.case years_def
    by (simp only: if_False prod.case add_0_right)
qed

lemma remsecs_fields:
  fixes secs :: int
  defines "r \<equiv> secs mod 86400"
  shows "0 \<le> r mod 60" "r mod 60 \<le> 59" "0 \<le> r div 60 mod 60" "r div 60 mod 60 \<le> 59"
        "0 \<le> r div 3600" "r div 3600 \<le> 23"
proof -
  have "0 \<le> r" "r < 86400" by (simp_all add: r_def)
  then show "0 \<le> r div 3600" "r div 3600 \<le> 23" by simp_all
  show "0 \<le> r mod 60" "r mod 60 \<le> 59" "0 \<le> r div 60 mod 60" "r div 60 mod 60 \<le> 59"
    by simp_all
qed

lemma days_mod_400Y: "0 \<le> d mod DAYS_PER_400Y" "d mod DAYS_PER_400Y < DAYS_PER_400Y"
  by (simp_all add: DAYS_PER_400Y_def)

text \<open>The intermediate values of gmtime and what is known of them.\<close>

text \<open>Hours, minutes and seconds make up the seconds of the day.\<close>

lemma hms:
  fixes r :: int
  shows "r = 3600 * (r div 3600) + 60 * (r div 60 mod 60) + r mod 60"
proof -
  have lin: "r = 3600 * h + 60 * m + s" if "r = 60 * a + s" "a = 60 * h + m" for a h m s :: int
    using that by simp
  have "r div 60 div 60 = r div 3600"
    using zdiv_zmult2_eq [of 60 r 60] by simp
  then have "r div 60 = 60 * (r div 3600) + r div 60 mod 60"
    using mult_div_mod_eq [of 60 "r div 60"] by simp
  with mult_div_mod_eq [of 60 r, symmetric] show ?thesis
    by (rule lin)
qed

lemma gmtime_stages:
  fixes t :: int
  defines "days \<equiv> (t - LEAPOCH) div 86400"
  defines "remsecs \<equiv> (t - LEAPOCH) mod 86400"
  obtains qc c q y r3 m r' years sec mn hr where
    "days = 146097 * qc + 36524 * c + 1461 * q + 365 * y + r3"
    "0 \<le> c" "c \<le> 3" "0 \<le> q" "q \<le> 24" "0 \<le> y" "y \<le> 3" "0 \<le> r3" "r3 \<le> 365"
    "c < 3 \<longrightarrow> 1461 * q + 365 * y + r3 < 36524"
    "q < 24 \<longrightarrow> 365 * y + r3 < 1461"
    "y < 3 \<longrightarrow> r3 < 365"
    "0 \<le> m" "m \<le> 11" "0 \<le> r'" "r' \<le> 30" "10 \<le> m \<longleftrightarrow> 306 \<le> r3"
    "years = y + 4 * q + 100 * c + 400 * qc + (if 10 \<le> m then 1 else 0)"
    "0 \<le> sec" "sec \<le> 59" "0 \<le> mn" "mn \<le> 59" "0 \<le> hr" "hr \<le> 23"
    "gmtime t =
      (if years + 100 > INT_MAX \<or> years + 100 < INT_MIN then None
       else Some \<lparr>tm_sec = sec, tm_min = mn, tm_hour = hr, tm_mday = r' + 1,
                   tm_mon = (if 10 \<le> m then m - 12 else m) + 2, tm_year = years + 100\<rparr>)"
    "month_loop days_in_month 0 r3 = (m, r')"
    "remsecs = 3600 * hr + 60 * mn + sec"
proof -
  note rs = remsecs_fields [of "t - LEAPOCH", folded remsecs_def]
  obtain c r1 where s1: "split_cycle DAYS_PER_100Y 3 (days mod DAYS_PER_400Y) = (c, r1)"
    by force
  obtain q r2 where s2: "split_cycle DAYS_PER_4Y 24 r1 = (q, r2)"
    by force
  obtain y r3 where s3: "split_cycle 365 3 r2 = (y, r3)"
    by force
  obtain m r' where mloop: "month_loop days_in_month 0 r3 = (m, r')"
    by force
  note b1 = split_100Y [OF s1 days_mod_400Y]
  then have b2: "0 \<le> q \<and> q \<le> 24 \<and> 0 \<le> r2 \<and> r2 \<le> 1460 \<and> r1 = q * 1461 + r2 \<and> (q < 24 \<longrightarrow> r2 < 1461)"
    by (intro split_4Y [OF s2]) simp_all
  then have b3: "0 \<le> y \<and> y \<le> 3 \<and> 0 \<le> r3 \<and> r3 \<le> 365 \<and> r2 = y * 365 + r3 \<and> (y < 3 \<longrightarrow> r3 < 365)"
    by (intro split_1Y [OF s3]) simp_all
  then have b4: "0 \<le> m \<and> m \<le> 11 \<and> 0 \<le> r' \<and> r' \<le> 30 \<and> (10 \<le> m \<longleftrightarrow> 306 \<le> r3)"
    by (intro month_loop_bounds [OF _ _ mloop]) simp_all
  have "days = 146097 * (days div DAYS_PER_400Y) + days mod DAYS_PER_400Y"
    by (simp add: DAYS_PER_400Y_def)
  moreover have "days mod DAYS_PER_400Y = c * 36524 + r1" "r1 = q * 1461 + r2" "r2 = y * 365 + r3"
    using b1 b2 b3 by blast+
  ultimately have d: "days = 146097 * (days div DAYS_PER_400Y) + 36524 * c + 1461 * q + 365 * y + r3"
    by linarith
  have g: "gmtime t =
      (if (y + 4 * q + 100 * c + 400 * (days div DAYS_PER_400Y) + (if 10 \<le> m then 1 else 0)) + 100 > INT_MAX
          \<or> (y + 4 * q + 100 * c + 400 * (days div DAYS_PER_400Y) + (if 10 \<le> m then 1 else 0)) + 100 < INT_MIN then None
       else Some \<lparr>tm_sec = remsecs mod 60, tm_min = remsecs div 60 mod 60,
                   tm_hour = remsecs div 3600, tm_mday = r' + 1,
                   tm_mon = (if 10 \<le> m then m - 12 else m) + 2,
                   tm_year = (y + 4 * q + 100 * c + 400 * (days div DAYS_PER_400Y) + (if 10 \<le> m then 1 else 0)) + 100\<rparr>)"
    unfolding days_def remsecs_def
    by (rule gmtime_unfold [OF s1 [unfolded days_def] s2 s3 mloop])
  have u1: "c < 3 \<longrightarrow> 1461 * q + 365 * y + r3 < 36524"
    using b1 b2 b3 by auto
  have u2: "q < 24 \<longrightarrow> 365 * y + r3 < 1461"
    using b2 b3 by auto
  have u3: "y < 3 \<longrightarrow> r3 < 365"
    using b3 by auto
  show thesis
    using b1 b2 b3 b4
    by (intro that [OF d _ _ _ _ _ _ _ _ u1 u2 u3 _ _ _ _ _ refl rs g mloop hms [of remsecs]]) simp_all
qed

lemma gmtime_in_range:
  assumes "gmtime t = Some x"
  shows "tm_in_range x"
proof -
  obtain qc c q y r3 m r' years sec mn hr where
    m: "0 \<le> m" "m \<le> 11" "0 \<le> r'" "r' \<le> 30"
    and s: "0 \<le> sec" "sec \<le> 59" "0 \<le> mn" "mn \<le> 59" "0 \<le> hr" "hr \<le> 23"
    and g: "gmtime t =
      (if years + 100 > INT_MAX \<or> years + 100 < INT_MIN then None
       else Some \<lparr>tm_sec = sec, tm_min = mn, tm_hour = hr, tm_mday = r' + 1,
                   tm_mon = (if 10 \<le> m then m - 12 else m) + 2, tm_year = years + 100\<rparr>)"
    by (rule gmtime_stages [of t])
  from g assms have ok: "\<not> (years + 100 > INT_MAX \<or> years + 100 < INT_MIN)"
    by (cases "years + 100 > INT_MAX \<or> years + 100 < INT_MIN") simp_all
  with g assms have x: "x = \<lparr>tm_sec = sec, tm_min = mn, tm_hour = hr, tm_mday = r' + 1,
                   tm_mon = (if 10 \<le> m then m - 12 else m) + 2, tm_year = years + 100\<rparr>"
    by simp
  show ?thesis
    unfolding tm_in_range_def x using s m ok by simp
qed

lemma gmtime_four_digit_year:
  assumes "four_digit_year t"
  obtains x where "gmtime t = Some x" "1000 \<le> tm_year x + 1900" "tm_year x + 1900 \<le> 9999"
proof -
  define days where "days = (t - LEAPOCH) div 86400"
  from assms have "- 31562092800 \<le> t - LEAPOCH" "t - LEAPOCH < 252450432000"
    by (simp_all add: four_digit_year_def LEAPOCH_def)
  then have days: "- 365302 \<le> days" "days \<le> 2921879"
    unfolding days_def by linarith+
  obtain qc c q y r3 m r' years sec mn hr where
    d: "days = 146097 * qc + 36524 * c + 1461 * q + 365 * y + r3"
    and b: "0 \<le> c" "c \<le> 3" "0 \<le> q" "q \<le> 24" "0 \<le> y" "y \<le> 3" "0 \<le> r3" "r3 \<le> 365"
    and u: "c < 3 \<longrightarrow> 1461 * q + 365 * y + r3 < 36524"
       "q < 24 \<longrightarrow> 365 * y + r3 < 1461"
       "y < 3 \<longrightarrow> r3 < 365"
    and m: "10 \<le> m \<longleftrightarrow> 306 \<le> r3"
    and years: "years = y + 4 * q + 100 * c + 400 * qc + (if 10 \<le> m then 1 else 0)"
    and g: "gmtime t =
      (if years + 100 > INT_MAX \<or> years + 100 < INT_MIN then None
       else Some \<lparr>tm_sec = sec, tm_min = mn, tm_hour = hr, tm_mday = r' + 1,
                   tm_mon = (if 10 \<le> m then m - 12 else m) + 2, tm_year = years + 100\<rparr>)"
    unfolding days_def by (rule gmtime_stages [of t])
  define e :: int where "e = (if 10 \<le> m then 1 else 0)"
  have e: "0 \<le> e" "e \<le> 1" "e = 1 \<longrightarrow> 306 \<le> r3" "e = 0 \<longrightarrow> r3 < 306"
    using m by (simp_all add: e_def)
  have ye: "years = y + 4 * q + 100 * c + 400 * qc + e"
    by (simp add: years e_def)
  have qc: "- 3 \<le> qc" "qc \<le> 19"
    using d b days by linarith+
  have upper: "years \<le> 7999"
  proof (rule ccontr)
    assume "\<not> years \<le> 7999"
    then have y8: "8000 \<le> y + 4 * q + 100 * c + 400 * qc + e"
      by (simp add: ye)
    have "qc = 19" using y8 qc b e by linarith
    moreover from this have "c = 3" using y8 b e by linarith
    moreover from this \<open>qc = 19\<close> have "q = 24" using y8 b e by linarith
    moreover from this \<open>qc = 19\<close> \<open>c = 3\<close> have "y = 3" "e = 1" using y8 b e by linarith+
    ultimately show False using d days e by linarith
  qed
  have lower: "- 1000 \<le> years"
  proof (rule ccontr)
    assume "\<not> - 1000 \<le> years"
    then have y8: "y + 4 * q + 100 * c + 400 * qc + e < - 1000"
      by (simp add: ye)
    have q3: "qc = - 3" using y8 qc b e by linarith
    then have "c \<le> 1" using y8 b e by linarith
    moreover have "c \<noteq> 0" using q3 d days u(1) b by linarith
    ultimately have c: "c = 1" using b by linarith
    have r: "36465 \<le> 1461 * q + 365 * y + r3" using q3 c d days by linarith
    then have q: "q = 24" using b by linarith
    with r have r2: "1401 \<le> 365 * y + r3" by linarith
    then have y: "y = 3" using b by linarith
    with r2 have "306 \<le> r3" by linarith
    with e have "e = 1" by linarith
    with y q c q3 y8 show False by linarith
  qed
  show thesis
    using upper lower g by (intro that [of "the (gmtime t)"]) (simp_all add: INT_MAX_def INT_MIN_def)
qed

subsection \<open>The calendar date of a clock reading\<close>

lemma month_loop_yday:
  assumes "0 \<le> r" "r \<le> 365" "month_loop days_in_month 0 r = (m, r')"
  shows "days_before_month ! nat ((if 10 \<le> m then m - 12 else m) + 2) + r'
         = (if 10 \<le> m then r - 306 else r + 59)"
  using assms by (auto simp: days_in_month_def days_before_month_def split: if_splits)

lemma combine_days_secs:
  fixes u :: int
  assumes "u = 86400 * days + r" "days = d" "r = s"
  shows "u = 86400 * d + s"
  using assms by simp

lemma div_cycle:
  fixes k z n :: int
  assumes "0 < n" "0 \<le> z" "z \<le> n"
  shows "(n * k + (z + (n - 1))) div n = k + (if 1 \<le> z then 1 else 0)"
proof (cases "1 \<le> z")
  case True
  have e: "n * k + (z + (n - 1)) = n * (k + 1) + (z - 1)"
    by (simp add: algebra_simps)
  have "(z - 1) div n = 0"
    using True assms by (intro div_pos_pos_trivial) simp_all
  moreover have "(n * (k + 1) + (z - 1)) div n = (k + 1) + (z - 1) div n"
    using assms(1) by (intro div_mult_self4) simp
  ultimately have "(n * k + (z + (n - 1))) div n = k + 1"
    unfolding e by simp
  with True show ?thesis
    by (simp only: if_True)
next
  case False
  with assms have z: "z = 0" by simp
  have "(n - 1) div n = 0"
    using assms(1) by (intro div_pos_pos_trivial) simp_all
  moreover have "(n * k + (n - 1)) div n = k + (n - 1) div n"
    using assms(1) by (intro div_mult_self4) simp
  ultimately have "(n * k + (z + (n - 1))) div n = k"
    unfolding z by simp
  with False show ?thesis
    by (simp only: if_False add_0_right)
qed

lemma mod_cycle:
  fixes k z n :: int
  assumes "0 \<le> z" "z < n"
  shows "(n * k + z) mod n = z"
  using assms by simp

lemma leap_year_cycles:
  fixes qc c q y :: int
  assumes "0 \<le> c" "c \<le> 3" "0 \<le> q" "q \<le> 24" "0 \<le> y" "y \<le> 3"
  shows "leap_year (y + 4 * q + 100 * c + 400 * qc + 2000) \<longleftrightarrow> y = 0 \<and> (q \<noteq> 0 \<or> c = 0)"
proof -
  let ?yr = "y + 4 * q + 100 * c + 400 * qc + 2000"
  have e4: "?yr = 4 * (q + 25 * c + 100 * qc + 500) + y"
    by simp
  have e100: "?yr = 100 * (c + 4 * qc + 20) + (4 * q + y)"
    by simp
  have e400: "?yr = 400 * (qc + 5) + (100 * c + 4 * q + y)"
    by simp
  have "?yr mod 4 = y"
    unfolding e4 using assms by (intro mod_cycle) simp_all
  moreover have "?yr mod 100 = 4 * q + y"
    unfolding e100 using assms by (intro mod_cycle) simp_all
  moreover have "?yr mod 400 = 100 * c + 4 * q + y"
    unfolding e400 using assms by (intro mod_cycle) simp_all
  ultimately show ?thesis
    unfolding leap_year_def using assms by auto
qed

lemma civil_days:
  fixes qc c q y r3 e :: int
  assumes b: "0 \<le> c" "c \<le> 3" "0 \<le> q" "q \<le> 24" "0 \<le> y" "y \<le> 3"
    and e: "e = 0 \<or> e = 1"
    and yd: "yd = (if e = 1 then r3 - 306
                   else r3 + 59 + (if leap_year (y + 4 * q + 100 * c + 400 * qc + 2000) then 1 else 0))"
    and ty: "ty = y + 4 * q + 100 * c + 400 * qc + e + 100"
  shows "yd + (ty - 70) * 365 + (ty - 69) div 4 - (ty - 1) div 100 + (ty + 299) div 400
         = 146097 * qc + 36524 * c + 1461 * q + 365 * y + r3 + 11017"
proof -
  have "ty - 69 = 4 * (100 * qc + 25 * c + q + 7) + ((y + e) + (4 - 1))"
    by (simp add: ty)
  then have A: "(ty - 69) div 4 = (100 * qc + 25 * c + q + 7) + (if 1 \<le> y + e then 1 else 0)"
    using b e by (simp only: ) (intro div_cycle; auto)
  have "ty - 1 = 100 * (4 * qc + c) + ((4 * q + y + e) + (100 - 1))"
    by (simp add: ty)
  then have B: "(ty - 1) div 100 = (4 * qc + c) + (if 1 \<le> 4 * q + y + e then 1 else 0)"
    using b e by (simp only: ) (intro div_cycle; auto)
  have "ty + 299 = 400 * qc + ((100 * c + 4 * q + y + e) + (400 - 1))"
    by (simp add: ty)
  then have C: "(ty + 299) div 400 = qc + (if 1 \<le> 100 * c + 4 * q + y + e then 1 else 0)"
    using b e by (simp only: ) (intro div_cycle; auto)
  note L = leap_year_cycles [OF b, of qc]
  from e show ?thesis
  proof
    assume e1: "e = 1"
    then have "1 \<le> y + e" "1 \<le> 4 * q + y + e" "1 \<le> 100 * c + 4 * q + y + e"
      using b by simp_all
    then show ?thesis
      unfolding A B C yd using e1 by (simp add: ty)
  next
    assume e0: "e = 0"
    consider (y) "1 \<le> y" | (q) "y = 0" "1 \<le> q" | (c) "y = 0" "q = 0" "1 \<le> c" | (z) "y = 0" "q = 0" "c = 0"
      using b by linarith
    then show ?thesis
    proof cases
      case y
      then have "1 \<le> y + e" "1 \<le> 4 * q + y + e" "1 \<le> 100 * c + 4 * q + y + e"
        "\<not> leap_year (y + 4 * q + 100 * c + 400 * qc + 2000)"
        using b e0 L by simp_all
      then show ?thesis
        unfolding A B C yd using e0 by (simp add: ty)
    next
      case q
      then have "\<not> 1 \<le> y + e" "1 \<le> 4 * q + y + e" "1 \<le> 100 * c + 4 * q + y + e"
        "leap_year (y + 4 * q + 100 * c + 400 * qc + 2000)"
        using b e0 L by simp_all
      then show ?thesis
        unfolding A B C yd using e0 q by (simp add: ty)
    next
      case c
      then have "\<not> 1 \<le> y + e" "\<not> 1 \<le> 4 * q + y + e" "1 \<le> 100 * c + 4 * q + y + e"
        "\<not> leap_year (y + 4 * q + 100 * c + 400 * qc + 2000)"
        using b e0 L by simp_all
      then show ?thesis
        unfolding A B C yd using e0 c by (simp add: ty)
    next
      case z
      then have "\<not> 1 \<le> y + e" "\<not> 1 \<le> 4 * q + y + e" "\<not> 1 \<le> 100 * c + 4 * q + y + e"
        "leap_year (y + 4 * q + 100 * c + 400 * qc + 2000)"
        using b e0 L by simp_all
      then show ?thesis
        unfolding A B C yd using e0 z by (simp add: ty)
    qed
  qed
qed

text \<open>
  The conversion is the inverse of the seconds since the Epoch: the broken-down
  time that \<^verbatim>\<open>gmtime\<close> returns is the UTC date and time of the clock
  reading.
\<close>

lemma gmtime_inverse:
  assumes "gmtime t = Some x"
  shows "seconds_since_epoch x = t"
proof -
  obtain qc c q y r3 m r' years sec mn hr where
    d: "(t - LEAPOCH) div 86400 = 146097 * qc + 36524 * c + 1461 * q + 365 * y + r3"
    and b: "0 \<le> c" "c \<le> 3" "0 \<le> q" "q \<le> 24" "0 \<le> y" "y \<le> 3"
    and r3: "0 \<le> r3" "r3 \<le> 365"
    and years: "years = y + 4 * q + 100 * c + 400 * qc + (if 10 \<le> m then 1 else 0)"
    and g: "gmtime t =
      (if years + 100 > INT_MAX \<or> years + 100 < INT_MIN then None
       else Some \<lparr>tm_sec = sec, tm_min = mn, tm_hour = hr, tm_mday = r' + 1,
                   tm_mon = (if 10 \<le> m then m - 12 else m) + 2, tm_year = years + 100\<rparr>)"
    and mloop: "month_loop days_in_month 0 r3 = (m, r')"
    and hm: "(t - LEAPOCH) mod 86400 = 3600 * hr + 60 * mn + sec"
    by (rule gmtime_stages [of t])
  have "t - LEAPOCH = 86400 * ((t - LEAPOCH) div 86400) + (t - LEAPOCH) mod 86400"
    by (rule mult_div_mod_eq [symmetric])
  then have t: "t - LEAPOCH
      = 86400 * (146097 * qc + 36524 * c + 1461 * q + 365 * y + r3) + (3600 * hr + 60 * mn + sec)"
    using d hm by (rule combine_days_secs)
  define e :: int where "e = (if 10 \<le> m then 1 else 0)"
  define mon where "mon = (if 10 \<le> m then m - 12 else m) + 2"
  define ty where "ty = y + 4 * q + 100 * c + 400 * qc + e + 100"
  have e: "e = 0 \<or> e = 1"
    by (simp add: e_def)
  have ty: "years + 100 = ty"
    by (simp add: years ty_def e_def)
  from g assms have x: "x = \<lparr>tm_sec = sec, tm_min = mn, tm_hour = hr, tm_mday = r' + 1,
                           tm_mon = mon, tm_year = ty\<rparr>"
    unfolding mon_def [symmetric] ty
    by (cases "ty > INT_MAX \<or> ty < INT_MIN") simp_all
  note mb = month_loop_bounds [OF r3 mloop]
  have mon2: "2 \<le> mon \<longleftrightarrow> e = 0"
    using mb by (auto simp: mon_def e_def)
  have "days_before_month ! nat mon + r' = (if 10 \<le> m then r3 - 306 else r3 + 59)"
    unfolding mon_def by (rule month_loop_yday [OF r3 mloop])
  then have dbm: "days_before_month ! nat mon + r' = (if e = 1 then r3 - 306 else r3 + 59)"
    by (simp add: e_def)
  define yr0 where "yr0 = y + 4 * q + 100 * c + 400 * qc + 2000"
  have "yday x = (if e = 1 then r3 - 306 else r3 + 59 + (if leap_year yr0 then 1 else 0))"
  proof (cases "e = 1")
    case True
    with mon2 have "\<not> 2 \<le> mon" by simp
    with True dbm show ?thesis
      by (simp add: yday_def x)
  next
    case False
    with e have e0: "e = 0" by simp
    with mon2 have "2 \<le> mon" by simp
    moreover have "tm_year x + 1900 = yr0"
      by (simp add: x ty_def e0 yr0_def)
    ultimately show ?thesis
      unfolding yday_def using e0 dbm by (simp add: x)
  qed
  then have "yday x + (ty - 70) * 365 + (ty - 69) div 4 - (ty - 1) div 100 + (ty + 299) div 400
         = 146097 * qc + 36524 * c + 1461 * q + 365 * y + r3 + 11017"
    unfolding yr0_def using b e ty_def by (intro civil_days)
  then have "seconds_since_epoch x
             = 86400 * (146097 * qc + 36524 * c + 1461 * q + 365 * y + r3 + 11017)
               + (3600 * hr + 60 * mn + sec)"
    unfolding seconds_since_epoch_def by (simp add: x algebra_simps)
  with t show ?thesis
    by (simp add: LEAPOCH_def)
qed

subsection \<open>Decimal numerals and the timestamp\<close>

lemma is_digit_digit_char: "d < 10 \<Longrightarrow> is_digit (digit_char d)"
  by (simp add: is_digit_def digit_char_def)

lemma decimal_digits: "c \<in> set (decimal n) \<Longrightarrow> is_digit c"
proof (induction n arbitrary: c rule: decimal.induct)
  case (1 n)
  show ?case
  proof (cases "n < 10")
    case True
    with "1.prems" show ?thesis
      by (simp add: decimal.simps [of n] is_digit_digit_char)
  next
    case False
    with "1.prems" have "c \<in> set (decimal (n div 10)) \<or> c = digit_char (n mod 10)"
      by (auto simp: decimal.simps [of n])
    then show ?thesis
      using "1.IH" [OF False] by (auto intro: is_digit_digit_char)
  qed
qed

lemma length_decimal: "n < 10 ^ k \<Longrightarrow> 0 < k \<Longrightarrow> length (decimal n) \<le> k"
proof (induction k arbitrary: n)
  case 0
  then show ?case by simp
next
  case (Suc k)
  show ?case
  proof (cases "n < 10")
    case True
    then show ?thesis by (simp add: decimal.simps [of n])
  next
    case False
    then have "0 < k" using Suc.prems by (cases k) simp_all
    moreover have "n div 10 < 10 ^ k" using Suc.prems by (simp add: less_mult_imp_div_less mult.commute)
    ultimately have "length (decimal (n div 10)) \<le> k" by (rule Suc.IH [rotated])
    with False show ?thesis by (simp add: decimal.simps [of n])
  qed
qed

lemma decimal_1: "n < 10 \<Longrightarrow> decimal n = [digit_char n]"
  by (simp add: decimal.simps [of n])

lemma decimal_2: "10 \<le> n \<Longrightarrow> n < 100 \<Longrightarrow> decimal n = [digit_char (n div 10), digit_char (n mod 10)]"
  by (simp add: decimal.simps [of n] decimal_1)

lemma decimal_3:
  "100 \<le> n \<Longrightarrow> n < 1000 \<Longrightarrow>
   decimal n = [digit_char (n div 100), digit_char (n div 10 mod 10), digit_char (n mod 10)]"
  by (simp add: decimal.simps [of n] decimal_2 div_mult2_eq [symmetric])

lemma decimal_4:
  "1000 \<le> n \<Longrightarrow> n < 10000 \<Longrightarrow>
   decimal n = [digit_char (n div 1000), digit_char (n div 100 mod 10),
                digit_char (n div 10 mod 10), digit_char (n mod 10)]"
  by (simp add: decimal.simps [of n] decimal_3 div_mult2_eq [symmetric])

lemma digit_char_0: "digit_char 0 = CHR ''0''"
  by code_simp

lemma two_digits:
  assumes "0 \<le> i" "i \<le> 99"
  obtains a b where "zero_pad 2 (show_int i) = [a, b]" "is_digit a" "is_digit b"
proof (cases "i < 10")
  case True
  with assms have "zero_pad 2 (show_int i) = [digit_char 0, digit_char (nat i)]"
    by (simp add: zero_pad_def show_int_def decimal_1 numeral_2_eq_2 digit_char_0)
  moreover have "is_digit (digit_char 0)" "is_digit (digit_char (nat i))"
    using True by (simp_all add: is_digit_digit_char)
  ultimately show thesis by (rule that)
next
  case False
  with assms have "zero_pad 2 (show_int i) = [digit_char (nat i div 10), digit_char (nat i mod 10)]"
    by (simp add: zero_pad_def show_int_def decimal_2)
  moreover have "is_digit (digit_char (nat i div 10))" "is_digit (digit_char (nat i mod 10))"
    using assms by (simp_all add: is_digit_digit_char)
  ultimately show thesis by (rule that)
qed

lemma four_digits:
  assumes "1000 \<le> i" "i \<le> 9999"
  obtains a b c d where "show_int i = [a, b, c, d]" "is_digit a" "is_digit b" "is_digit c" "is_digit d"
proof -
  from assms have "show_int i = [digit_char (nat i div 1000), digit_char (nat i div 100 mod 10),
                       digit_char (nat i div 10 mod 10), digit_char (nat i mod 10)]"
    by (simp add: show_int_def decimal_4)
  moreover have "is_digit (digit_char (nat i div 1000))" "is_digit (digit_char (nat i div 100 mod 10))"
    "is_digit (digit_char (nat i div 10 mod 10))" "is_digit (digit_char (nat i mod 10))"
    using assms by (simp_all add: is_digit_digit_char)
  ultimately show thesis by (rule that)
qed

lemma expand_time_TIME_FORMAT:
  "expand_time TIME_FORMAT x =
     show_int (tm_year x + 1900) @ ''-'' @ zero_pad 2 (show_int (tm_mon x + 1)) @ ''-'' @
     zero_pad 2 (show_int (tm_mday x)) @ ''T'' @ zero_pad 2 (show_int (tm_hour x)) @ '':'' @
     zero_pad 2 (show_int (tm_min x)) @ '':'' @ zero_pad 2 (show_int (tm_sec x)) @ ''Z''"
  by (simp add: TIME_FORMAT_def conversion_def)

lemma matches_timestamp:
  assumes "tm_in_range x" "1000 \<le> tm_year x + 1900" "tm_year x + 1900 \<le> 9999"
  shows "matches_pattern TIMESTAMP_PATTERN (expand_time TIME_FORMAT x)"
proof -
  obtain y1 y2 y3 y4 where y: "show_int (tm_year x + 1900) = [y1, y2, y3, y4]"
    "is_digit y1" "is_digit y2" "is_digit y3" "is_digit y4"
    using assms(2,3) by (rule four_digits)
  obtain m1 m2 where m: "zero_pad 2 (show_int (tm_mon x + 1)) = [m1, m2]" "is_digit m1" "is_digit m2"
    using assms(1) by (auto simp: tm_in_range_def intro: two_digits [of "tm_mon x + 1"])
  obtain d1 d2 where d: "zero_pad 2 (show_int (tm_mday x)) = [d1, d2]" "is_digit d1" "is_digit d2"
    using assms(1) by (auto simp: tm_in_range_def intro: two_digits [of "tm_mday x"])
  obtain h1 h2 where h: "zero_pad 2 (show_int (tm_hour x)) = [h1, h2]" "is_digit h1" "is_digit h2"
    using assms(1) by (auto simp: tm_in_range_def intro: two_digits [of "tm_hour x"])
  obtain n1 n2 where n: "zero_pad 2 (show_int (tm_min x)) = [n1, n2]" "is_digit n1" "is_digit n2"
    using assms(1) by (auto simp: tm_in_range_def intro: two_digits [of "tm_min x"])
  obtain s1 s2 where s: "zero_pad 2 (show_int (tm_sec x)) = [s1, s2]" "is_digit s1" "is_digit s2"
    using assms(1) by (auto simp: tm_in_range_def intro: two_digits [of "tm_sec x"])
  show ?thesis
    unfolding expand_time_TIME_FORMAT TIMESTAMP_PATTERN_def
    by (simp add: y m d h n s)
qed

text \<open>Whatever gmtime returns is written without a NUL and fits the timestamp array.\<close>

lemma show_int_chars: "c \<in> set (show_int i) \<Longrightarrow> is_digit c \<or> c = CHR ''-''"
  by (auto simp: show_int_def dest: decimal_digits split: if_splits)

lemma zero_pad_chars: "c \<in> set (zero_pad w s) \<Longrightarrow> c = CHR ''0'' \<or> c \<in> set s"
  by (auto simp: zero_pad_def)

lemma conversion_not_NUL: "NUL \<notin> set (show_int i)" "NUL \<notin> set (zero_pad w (show_int i))"
proof -
  have n: "\<not> is_digit NUL" "NUL \<noteq> CHR ''-''" "NUL \<noteq> CHR ''0''"
    by (simp_all add: is_digit_def NUL_def)
  show "NUL \<notin> set (show_int i)"
    using show_int_chars [of NUL i] n by blast
  then show "NUL \<notin> set (zero_pad w (show_int i))"
    using zero_pad_chars [of NUL w "show_int i"] n by blast
qed

lemma NUL_notin_timestamp: "NUL \<notin> set (expand_time TIME_FORMAT x)"
  unfolding expand_time_TIME_FORMAT
  by (simp add: conversion_not_NUL) (simp add: NUL_def)

lemma length_show_int:
  assumes "- (10 ^ 10) < i" "i < 10 ^ 10"
  shows "length (show_int i) \<le> 11"
proof -
  have "nat \<bar>i\<bar> < 10 ^ 10"
    using assms by (simp add: abs_less_iff nat_less_iff)
  then have "length (decimal (nat \<bar>i\<bar>)) \<le> 10"
    by (rule length_decimal) simp
  then show ?thesis
    by (cases "i < 0") (simp_all add: show_int_def)
qed

lemma length_timestamp:
  assumes "tm_in_range x"
  shows "length (expand_time TIME_FORMAT x) < 64"
proof -
  have "length (show_int (tm_year x + 1900)) \<le> 11"
    using assms by (intro length_show_int) (simp_all add: tm_in_range_def INT_MIN_def INT_MAX_def)
  moreover have "length (zero_pad 2 (show_int i)) = 2" if i: "0 \<le> i" "i \<le> 99" for i
  proof -
    obtain a b where "zero_pad 2 (show_int i) = [a, b]"
      using two_digits [OF i] by blast
    then show ?thesis by simp
  qed
  then have "length (zero_pad 2 (show_int (tm_mon x + 1))) = 2" "length (zero_pad 2 (show_int (tm_mday x))) = 2"
    "length (zero_pad 2 (show_int (tm_hour x))) = 2" "length (zero_pad 2 (show_int (tm_min x))) = 2"
    "length (zero_pad 2 (show_int (tm_sec x))) = 2"
    using assms by (simp_all add: tm_in_range_def)
  ultimately show ?thesis
    unfolding expand_time_TIME_FORMAT by simp
qed

section \<open>The handlers\<close>

lemma sys_read_None: "rx fd = None \<Longrightarrow> sys_read fd buf n = (- 1, buf, fd)"
  by (simp add: sys_read_def)

lemma sys_read_Some:
  "rx fd = Some p \<Longrightarrow>
   sys_read fd buf n = (int (length (take n p)), store buf (take n p), fd\<lparr>rx := Some (drop n p)\<rparr>)"
  by (simp add: sys_read_def)

lemma terminated_buffer:
  assumes "length d < n"
  shows "(store (auto_array n junk) d)[nat (int (length d)) := NUL]
         = d @ NUL # drop (Suc (length d)) (auto_array n junk)"
  using assms by (simp add: store_terminate length_auto_array)

lemma c_str_terminated_buffer:
  assumes "length d < n"
  shows "c_str ((store (auto_array n junk) d)[nat (int (length d)) := NUL]) = c_str d"
  by (simp only: terminated_buffer [OF assms] c_str_append_NUL)

lemma expand_s_health:
  \<open>expand_s health_format_c ts = health_response ts\<close>
  by (simp add: health_format_c_def health_response_def http_200_def CRLF_def LF_def)

lemma expand_s_default: "expand_s default_format_c arg = default_response"
  by (simp add: default_format_c_def default_response_def http_200_def CRLF_def LF_def)

lemma written_from_array:
  assumes "NUL \<notin> set s" "length s < n"
  shows "take (strlen (store a (take (n - 1) s @ [NUL]))) (store a (take (n - 1) s @ [NUL])) = s"
proof -
  from assms(2) have "take (n - 1) s = s" by simp
  then have "store a (take (n - 1) s @ [NUL]) = s @ NUL # drop (Suc (length s)) a"
    by (simp add: store_def)
  with assms(1) show ?thesis
    by (simp add: strlen_def c_str_no_NUL)
qed

lemma NUL_notin_health_response: "NUL \<notin> set ts \<Longrightarrow> NUL \<notin> set (health_response ts)"
  by (simp add: health_response_def http_200_def CRLF_def LF_def NUL_def)

lemma NUL_notin_default_response: "NUL \<notin> set default_response"
  by (simp add: default_response_def http_200_def CRLF_def LF_def NUL_def)

lemma length_health_response: "length (health_response ts) = length ts + 85"
  by (simp add: health_response_def http_200_def CRLF_def LF_def)

lemma length_default_response: "length default_response = 77"
  by (simp add: default_response_def http_200_def CRLF_def LF_def)

lemma handle_request_c_reference:
  "handle_request_c now junk fd = reference_handler (Perror ''read'') now fd"
proof (cases "rx fd")
  case None
  then show ?thesis
    by (simp add: handle_request_c_def reference_handler_def sys_read_None)
next
  case (Some p)
  define d where "d = take (BUFFER_SIZE - 1) p"
  define fd' where "fd' = fd\<lparr>rx := Some (drop (BUFFER_SIZE - 1) p)\<rparr>"
  define response where "response = auto_array BUFFER_SIZE (drop BUFFER_SIZE junk)"
  have len: "length d < BUFFER_SIZE"
    by (simp add: d_def BUFFER_SIZE_def)
  have rd: "sys_read fd (auto_array BUFFER_SIZE junk) (BUFFER_SIZE - 1)
            = (int (length d), store (auto_array BUFFER_SIZE junk) d, fd')"
    unfolding d_def fd'_def by (rule sys_read_Some [OF Some])
  have test: "strstr ((store (auto_array BUFFER_SIZE junk) d)[nat (int (length d)) := NUL]) ''GET /health'' \<noteq> None
              \<longleftrightarrow> sublist ''GET /health'' (c_str d)"
    by (simp only: strstr_iff c_str_terminated_buffer [OF len])
  have dflt: "sys_write fd' (snprintf response BUFFER_SIZE default_format_c [])
                (strlen (snprintf response BUFFER_SIZE default_format_c []))
              = fd'\<lparr>writes := writes fd' @ [default_response]\<rparr>"
    unfolding sys_write_def snprintf_def expand_s_default
    by (subst written_from_array)
      (simp_all add: NUL_notin_default_response length_default_response BUFFER_SIZE_def)
  have hlth: "(case strftime (auto_array 64 (drop (2 * BUFFER_SIZE) junk)) 64 TIME_FORMAT t of
                 None \<Rightarrow> Undefined
               | Some timestamp \<Rightarrow>
                   let response = snprintf response BUFFER_SIZE health_format_c (c_str timestamp)
                   in Returns (sys_write fd' response (strlen response), []))
              = Returns (fd'\<lparr>writes := writes fd' @ [health_response (expand_time TIME_FORMAT t)]\<rparr>, [])"
    if t: "gmtime now = Some t" for t
  proof -
    let ?ts = "expand_time TIME_FORMAT t"
    have r: "tm_in_range t" using t by (rule gmtime_in_range)
    have l: "length ?ts < 64" using r by (rule length_timestamp)
    have n: "NUL \<notin> set ?ts" by (rule NUL_notin_timestamp)
    have sf: "strftime (auto_array 64 (drop (2 * BUFFER_SIZE) junk)) 64 TIME_FORMAT t
              = Some (?ts @ NUL # drop (Suc (length ?ts)) (auto_array 64 (drop (2 * BUFFER_SIZE) junk)))"
      using l by (simp add: strftime_def store_def Let_def)
    have cs: "c_str (?ts @ NUL # drop (Suc (length ?ts)) (auto_array 64 (drop (2 * BUFFER_SIZE) junk))) = ?ts"
      using n by (rule c_str_no_NUL)
    have w: "take (strlen (snprintf response BUFFER_SIZE health_format_c ?ts))
               (snprintf response BUFFER_SIZE health_format_c ?ts) = health_response ?ts"
      unfolding snprintf_def expand_s_health
      using l n by (intro written_from_array)
        (simp_all add: NUL_notin_health_response length_health_response BUFFER_SIZE_def)
    show ?thesis
      by (simp add: sf cs Let_def sys_write_def w)
  qed
  have nonneg: "\<not> int (length d) < 0"
    by simp
  show ?thesis
  proof (cases "sublist ''GET /health'' (c_str d)")
    case True
    show ?thesis
    proof (cases "gmtime now")
      case None
      show ?thesis
        unfolding handle_request_c_def reference_handler_def Let_def rd prod.case test
          \<open>rx fd = Some p\<close> option.case d_def [symmetric] None
        using True by (simp only: nonneg if_False if_True option.case)
    next
      case (Some t)
      show ?thesis
        unfolding handle_request_c_def reference_handler_def Let_def rd prod.case test
          \<open>rx fd = Some p\<close> option.case d_def [symmetric] fd'_def [symmetric] Some
          hlth [OF Some, unfolded Let_def response_def]
        using True by (simp only: nonneg if_False if_True option.case)
    qed
  next
    case False
    show ?thesis
      unfolding handle_request_c_def reference_handler_def Let_def rd prod.case test
        \<open>rx fd = Some p\<close> option.case d_def [symmetric] fd'_def [symmetric]
        dflt [unfolded response_def]
      using False by (simp only: nonneg if_False if_True option.case)
  qed
qed

lemma health_response_cpp:
  \<open>''HTTP/1.1 200 OK'' @ CRLF @ ''Content-Type: application/json'' @ CRLF @ CRLF @
     ''{"status": "ok", "timestamp": "'' @ ts @ ''"}'' @ LF = health_response ts\<close>
  by (simp add: health_response_def http_200_def)

lemma default_response_cpp:
  "''HTTP/1.1 200 OK'' @ CRLF @ ''Content-Type: text/plain'' @ CRLF @ CRLF @
     ''Hello from agentkernel sandbox!'' @ LF = default_response"
  by (simp add: default_response_def http_200_def)

lemma write_c_str: "sys_write fd (s @ [NUL]) (length s) = fd\<lparr>writes := writes fd @ [s]\<rparr>"
  by (simp add: sys_write_def)

lemma handle_request_cpp_reference:
  "handle_request_cpp now junk fd = reference_handler (Cerr ''Error reading from socket'') now fd"
proof (cases "rx fd")
  case None
  then show ?thesis
    by (simp add: handle_request_cpp_def reference_handler_def sys_read_None)
next
  case (Some p)
  define d where "d = take (BUFFER_SIZE - 1) p"
  define fd' where "fd' = fd\<lparr>rx := Some (drop (BUFFER_SIZE - 1) p)\<rparr>"
  have len: "length d < BUFFER_SIZE"
    by (simp add: d_def BUFFER_SIZE_def)
  have rd: "sys_read fd (auto_array BUFFER_SIZE junk) (BUFFER_SIZE - 1)
            = (int (length d), store (auto_array BUFFER_SIZE junk) d, fd')"
    unfolding d_def fd'_def by (rule sys_read_Some [OF Some])
  have test: "std_find (c_str ((store (auto_array BUFFER_SIZE junk) d)[nat (int (length d)) := NUL])) ''GET /health'' \<noteq> None
              \<longleftrightarrow> sublist ''GET /health'' (c_str d)"
    by (simp only: std_find_iff c_str_terminated_buffer [OF len])
  have nonneg: "\<not> int (length d) < 0"
    by simp
  show ?thesis
  proof (cases "sublist ''GET /health'' (c_str d)")
    case True
    show ?thesis
    proof (cases "gmtime now")
      case None
      show ?thesis
        unfolding handle_request_cpp_def reference_handler_def Let_def rd prod.case test
          \<open>rx fd = Some p\<close> option.case d_def [symmetric] get_timestamp_def None outcome.case
        using True by (simp only: nonneg if_False if_True option.case)
    next
      case (Some t)
      show ?thesis
        unfolding handle_request_cpp_def reference_handler_def Let_def rd prod.case test
          \<open>rx fd = Some p\<close> option.case d_def [symmetric] fd'_def [symmetric] get_timestamp_def
          Some outcome.case put_time_def health_response_cpp write_c_str
        using True by (simp only: nonneg if_False if_True option.case)
    qed
  next
    case False
    show ?thesis
      unfolding handle_request_cpp_def reference_handler_def Let_def rd prod.case test
        \<open>rx fd = Some p\<close> option.case d_def [symmetric] fd'_def [symmetric]
        default_response_cpp write_c_str
      using False by (simp only: nonneg if_False if_True option.case)
  qed
qed

lemma received_eq: "received fd = map_option (take (BUFFER_SIZE - 1)) (rx fd)"
proof (cases "rx fd")
  case None
  then show ?thesis
    by (simp add: received_def sys_read_None)
next
  case (Some p)
  have "take (length d) (store a d) = d" for a d :: string
    by (simp add: store_def)
  then have "take (length (take (BUFFER_SIZE - 1) p)) (store (auto_array BUFFER_SIZE []) (take (BUFFER_SIZE - 1) p))
        = take (BUFFER_SIZE - 1) p" .
  then show ?thesis
    unfolding received_def sys_read_Some [OF Some] prod.case
    by (simp add: Some)
qed

lemma route_c_eq:
  "route_c junk fd =
     map_option (\<lambda>r. if sublist ''GET /health'' (c_str r) then Health else Default_route) (received fd)"
proof (cases "rx fd")
  case None
  then show ?thesis
    by (simp add: route_c_def received_eq sys_read_None)
next
  case (Some p)
  have len: "length (take (BUFFER_SIZE - 1) p) < BUFFER_SIZE"
    by (simp add: BUFFER_SIZE_def)
  show ?thesis
    unfolding route_c_def Let_def sys_read_Some [OF Some] prod.case strstr_iff
      c_str_terminated_buffer [OF len] received_eq Some
    by simp
qed

lemma route_cpp_eq:
  "route_cpp junk fd =
     map_option (\<lambda>r. if sublist ''GET /health'' (c_str r) then Health else Default_route) (received fd)"
proof (cases "rx fd")
  case None
  then show ?thesis
    by (simp add: route_cpp_def received_eq sys_read_None)
next
  case (Some p)
  have len: "length (take (BUFFER_SIZE - 1) p) < BUFFER_SIZE"
    by (simp add: BUFFER_SIZE_def)
  show ?thesis
    unfolding route_cpp_def Let_def sys_read_Some [OF Some] prod.case std_find_iff
      c_str_terminated_buffer [OF len] received_eq Some
    by simp
qed

section \<open>The accept loops\<close>

lemma status_accept_loop_c:
  "status (accept_loop_c accepts p) = status p \<or> status (accept_loop_c accepts p) = Undefined_behaviour"
proof (induction accepts arbitrary: p)
  case Nil
  then show ?case by simp
next
  case (Cons a rest)
  show ?case
  proof (cases a)
    case Accept_failed
    with Cons [of "p\<lparr>stderr := stderr p @ [Perror ''accept'']\<rparr>"] show ?thesis by simp
  next
    case (Accepted c)
    show ?thesis
    proof (cases "handle_request_c (clock c) (stack_junk c) (peer c)")
      case Undefined
      with Accepted show ?thesis by simp
    next
      case (Returns r)
      obtain fd msgs where r: "r = (fd, msgs)" by (cases r)
      from Cons [of "p\<lparr>stderr := stderr p @ msgs, served := served p @ [sys_close fd]\<rparr>"]
      show ?thesis by (simp add: Accepted Returns r)
    qed
  qed
qed

lemma status_accept_loop_cpp:
  "status (accept_loop_cpp accepts p) = status p \<or> status (accept_loop_cpp accepts p) = Undefined_behaviour"
proof (induction accepts arbitrary: p)
  case Nil
  then show ?case by simp
next
  case (Cons a rest)
  show ?case
  proof (cases a)
    case Accept_failed
    with Cons [of "p\<lparr>stderr := stderr p @ [Cerr ''Accept failed'']\<rparr>"] show ?thesis by simp
  next
    case (Accepted c)
    show ?thesis
    proof (cases "handle_request_cpp (clock c) (stack_junk c) (peer c)")
      case Undefined
      with Accepted show ?thesis by simp
    next
      case (Returns r)
      obtain fd msgs where r: "r = (fd, msgs)" by (cases r)
      from Cons [of "p\<lparr>stderr := stderr p @ msgs, served := served p @ [sys_close fd]\<rparr>"]
      show ?thesis by (simp add: Accepted Returns r)
    qed
  qed
qed

lemma reference_handler_returns:
  assumes "gmtime now \<noteq> None"
  obtains fd' msgs where "reference_handler d now fd = Returns (fd', msgs)"
proof -
  from assms have "\<exists>fd' msgs. reference_handler d now fd = Returns (fd', msgs)"
    by (auto simp: reference_handler_def Let_def split: option.splits)
  then show thesis using that by blast
qed

lemma accept_loop_c_run:
  assumes "\<forall>c \<in> set (connections accepts). gmtime (clock c) \<noteq> None"
  shows "status (accept_loop_c accepts p) = status p
       \<and> stdout (accept_loop_c accepts p) = stdout p
       \<and> stderr (accept_loop_c accepts p) = stderr p @ concat (map messages_c accepts)
       \<and> map Some (served (accept_loop_c accepts p))
           = map Some (served p) @ map serve_c (connections accepts)"
  using assms
proof (induction accepts arbitrary: p)
  case Nil
  then show ?case by simp
next
  case (Cons a rest)
  from Cons.prems have rest: "\<forall>c \<in> set (connections rest). gmtime (clock c) \<noteq> None"
    by (cases a) simp_all
  show ?case
  proof (cases a)
    case Accept_failed
    with Cons.IH [OF rest, of "p\<lparr>stderr := stderr p @ [Perror ''accept'']\<rparr>"] show ?thesis
      by simp
  next
    case (Accepted c)
    with Cons.prems have "gmtime (clock c) \<noteq> None" by simp
    then obtain fd msgs where h: "handle_request_c (clock c) (stack_junk c) (peer c) = Returns (fd, msgs)"
      unfolding handle_request_c_reference by (rule reference_handler_returns)
    from Cons.IH [OF rest, of "p\<lparr>stderr := stderr p @ msgs, served := served p @ [sys_close fd]\<rparr>"]
    show ?thesis
      by (simp add: Accepted h serve_c_def)
  qed
qed

lemma accept_loop_cpp_run:
  assumes "\<forall>c \<in> set (connections accepts). gmtime (clock c) \<noteq> None"
  shows "status (accept_loop_cpp accepts p) = status p
       \<and> stdout (accept_loop_cpp accepts p) = stdout p
       \<and> stderr (accept_loop_cpp accepts p) = stderr p @ concat (map messages_cpp accepts)
       \<and> map Some (served (accept_loop_cpp accepts p))
           = map Some (served p) @ map serve_cpp (connections accepts)"
  using assms
proof (induction accepts arbitrary: p)
  case Nil
  then show ?case by simp
next
  case (Cons a rest)
  from Cons.prems have rest: "\<forall>c \<in> set (connections rest). gmtime (clock c) \<noteq> None"
    by (cases a) simp_all
  show ?case
  proof (cases a)
    case Accept_failed
    with Cons.IH [OF rest, of "p\<lparr>stderr := stderr p @ [Cerr ''Accept failed'']\<rparr>"] show ?thesis
      by simp
  next
    case (Accepted c)
    with Cons.prems have "gmtime (clock c) \<noteq> None" by simp
    then obtain fd msgs where h: "handle_request_cpp (clock c) (stack_junk c) (peer c) = Returns (fd, msgs)"
      unfolding handle_request_cpp_reference by (rule reference_handler_returns)
    from Cons.IH [OF rest, of "p\<lparr>stderr := stderr p @ msgs, served := served p @ [sys_close fd]\<rparr>"]
    show ?thesis
      by (simp add: Accepted h serve_cpp_def)
  qed
qed

lemma served_closed:
  assumes "map Some fds = map f cs" "\<And>c fd. f c = Some fd \<Longrightarrow> is_closed fd"
  shows "list_all is_closed fds"
  using assms(1)
proof (induction fds arbitrary: cs)
  case Nil
  then show ?case by simp
next
  case (Cons fd fds)
  then obtain c cs' where "cs = c # cs'" "f c = Some fd" "map Some fds = map f cs'"
    by (cases cs) auto
  with Cons.IH [of cs'] assms(2) show ?case by simp
qed

lemma serve_c_closed: "serve_c c = Some fd \<Longrightarrow> is_closed fd"
  by (auto simp: serve_c_def sys_close_def split: outcome.splits)

lemma serve_cpp_closed: "serve_cpp c = Some fd \<Longrightarrow> is_closed fd"
  by (auto simp: serve_cpp_def sys_close_def split: outcome.splits)

text \<open>What a handler sends, by route and clock.\<close>

lemma sent_reference:
  "sent fd (reference_handler d now fd) =
     reply (map_option (\<lambda>r. if sublist ''GET /health'' (c_str r) then Health else Default_route) (received fd)) now"
  by (cases "rx fd"; cases "gmtime now")
    (simp_all add: sent_def reference_handler_def reply_def received_eq Let_def)

lemma sent_c: "sent fd (handle_request_c now junk fd) = reply (route_c junk fd) now"
  by (simp only: handle_request_c_reference sent_reference route_c_eq)

lemma sent_cpp: "sent fd (handle_request_cpp now junk fd) = reply (route_cpp junk fd) now"
  by (simp only: handle_request_cpp_reference sent_reference route_cpp_eq)

section \<open>The claims of the specification\<close>

lemma sublist_c_str: "sublist n (c_str r) \<Longrightarrow> sublist n r"
  unfolding c_str_def by (rule sublist_order.order_trans [OF _ sublist_takeWhile])

text \<open>
  Claim C1, as the code has it. A handler takes the health branch exactly when
  the part of the received bytes before their first NUL byte (all of them when
  there is none) contains \<^verbatim>\<open>GET /health\<close>; in every other case it takes
  the default branch. Both servers search a C string, which ends at the first
  NUL. The response sent is the one of the protocol table for that branch.
\<close>

theorem C1_classification:
  assumes "received fd = Some r"
  shows "route_c junk fd = Some (if sublist ''GET /health'' (c_str r) then Health else Default_route)
       \<and> route_cpp junk fd = Some (if sublist ''GET /health'' (c_str r) then Health else Default_route)
       \<and> sent fd (handle_request_c now junk fd) = reply (route_c junk fd) now
       \<and> sent fd (handle_request_cpp now junk fd) = reply (route_cpp junk fd) now"
  using assms by (simp add: route_c_eq route_cpp_eq sent_c sent_cpp)

text \<open>
  A request with a NUL byte in it: the text after the NUL is not looked at.
\<close>

theorem C1_classification_witness:
  "received \<lparr>rx = Some (''POST /x'' @ [NUL] @ ''GET /health''), writes = [], is_closed = False\<rparr>
     = Some (''POST /x'' @ [NUL] @ ''GET /health'')
   \<and> route_c ''junk'' \<lparr>rx = Some (''POST /x'' @ [NUL] @ ''GET /health''), writes = [], is_closed = False\<rparr>
     = Some Default_route
   \<and> route_cpp ''junk'' \<lparr>rx = Some (''POST /x'' @ [NUL] @ ''GET /health''), writes = [], is_closed = False\<rparr>
     = Some Default_route"
proof -
  let ?fd = "\<lparr>rx = Some (''POST /x'' @ [NUL] @ ''GET /health''), writes = [], is_closed = False\<rparr>"
  have r: "received ?fd = Some (''POST /x'' @ [NUL] @ ''GET /health'')"
    by (simp add: received_eq BUFFER_SIZE_def)
  have "\<not> sublist ''GET /health'' (c_str (''POST /x'' @ [NUL] @ ''GET /health''))"
    by (simp add: c_str_def NUL_def sublist_Cons_right)
  with C1_classification [OF r, of "''junk''" 0] r show ?thesis
    by simp
qed

text \<open>
  The claim as first stated, with the whole received sequence searched, fails
  on a request that has \<^verbatim>\<open>GET /health\<close> after a NUL byte: the
  sequence contains the text, and both servers take the default branch.
\<close>

theorem C1_counterexample:
  "received \<lparr>rx = Some (NUL # ''GET /health''), writes = [], is_closed = False\<rparr>
     = Some (NUL # ''GET /health'')
   \<and> sublist ''GET /health'' (NUL # ''GET /health'')
   \<and> route_c [] \<lparr>rx = Some (NUL # ''GET /health''), writes = [], is_closed = False\<rparr>
     = Some Default_route
   \<and> route_cpp [] \<lparr>rx = Some (NUL # ''GET /health''), writes = [], is_closed = False\<rparr>
     = Some Default_route"
  by (simp add: route_c_eq route_cpp_eq received_eq BUFFER_SIZE_def c_str_def sublist_Cons_right)

text \<open>
  Claim C2, as the code has it. When \<^verbatim>\<open>read\<close> returns zero bytes the
  handlers return after one \<^verbatim>\<open>write\<close> call that sends the default
  response: they test for \<open>bytes_read < 0\<close> only, and the empty request
  does not contain \<^verbatim>\<open>GET /health\<close>.
\<close>

theorem C2_empty_read:
  assumes "received fd = Some []"
  shows "handle_request_c now junk fd = Returns (fd\<lparr>writes := writes fd @ [default_response]\<rparr>, [])
       \<and> handle_request_cpp now junk fd = Returns (fd\<lparr>writes := writes fd @ [default_response]\<rparr>, [])"
proof -
  from assms obtain p where p: "rx fd = Some p" "take (BUFFER_SIZE - 1) p = []"
    by (auto simp: received_eq)
  then have "p = []"
    by (simp add: BUFFER_SIZE_def)
  with p have "reference_handler d now fd = Returns (fd\<lparr>writes := writes fd @ [default_response]\<rparr>, [])" for d
    by (simp add: reference_handler_def c_str_def)
  then show ?thesis
    by (simp only: handle_request_c_reference handle_request_cpp_reference simp_thms)
qed

theorem C2_empty_read_witness:
  "received \<lparr>rx = Some [], writes = [], is_closed = False\<rparr> = Some []
   \<and> handle_request_c 0 [] \<lparr>rx = Some [], writes = [], is_closed = False\<rparr>
       = Returns (\<lparr>rx = Some [], writes = [default_response], is_closed = False\<rparr>, [])
   \<and> handle_request_cpp 0 [] \<lparr>rx = Some [], writes = [], is_closed = False\<rparr>
       = Returns (\<lparr>rx = Some [], writes = [default_response], is_closed = False\<rparr>, [])"
proof -
  have r: "received \<lparr>rx = Some [], writes = [], is_closed = False\<rparr> = Some []"
    by (simp add: received_eq)
  from C2_empty_read [OF r, of 0 "[]"] r show ?thesis
    by simp
qed

text \<open>
  The claim as first stated, that nothing is written after a read of zero
  bytes, fails: one response is written.
\<close>

theorem C2_counterexample:
  "received \<lparr>rx = Some [], writes = [], is_closed = False\<rparr> = Some []
   \<and> sent \<lparr>rx = Some [], writes = [], is_closed = False\<rparr>
        (handle_request_c 0 [] \<lparr>rx = Some [], writes = [], is_closed = False\<rparr>)
       = Returns [default_response]
   \<and> sent \<lparr>rx = Some [], writes = [], is_closed = False\<rparr>
        (handle_request_cpp 0 [] \<lparr>rx = Some [], writes = [], is_closed = False\<rparr>)
       = Returns [default_response]"
  by (simp add: sent_c sent_cpp route_c_eq route_cpp_eq received_eq reply_def c_str_def)

lemma reply_health:
  assumes "gmtime now = Some t"
  shows "reply (Some Health) now = Returns [health_response (expand_time TIME_FORMAT t)]"
  using assms by (simp add: reply_def)

text \<open>
  Claim C3. Whenever a request is classified as a health check and the clock
  reads a time with a four-digit year, what is written is the response with
  status line \<^verbatim>\<open>200 OK\<close>, \<^verbatim>\<open>Content-Type: application/json\<close> and
  the JSON body with a newline after it. Its timestamp is the expansion of the
  broken-down time \<open>t\<close> that is the UTC date and time of the clock reading, and
  it has the form \<^verbatim>\<open>YYYY-MM-DDTHH:MM:SSZ\<close>.
\<close>

theorem C3_health_response:
  assumes "route_c junk fd = Some Health" "route_cpp junk fd = Some Health" "four_digit_year now"
  shows "\<exists>t. gmtime now = Some t
           \<and> seconds_since_epoch t = now
           \<and> matches_pattern TIMESTAMP_PATTERN (expand_time TIME_FORMAT t)
           \<and> sent fd (handle_request_c now junk fd)
               = Returns [health_response (expand_time TIME_FORMAT t)]
           \<and> sent fd (handle_request_cpp now junk fd)
               = Returns [health_response (expand_time TIME_FORMAT t)]"
proof -
  from assms(3) obtain t where t: "gmtime now = Some t"
    and y: "1000 \<le> tm_year t + 1900" "tm_year t + 1900 \<le> 9999"
    by (rule gmtime_four_digit_year)
  from t have "tm_in_range t"
    by (rule gmtime_in_range)
  then have "matches_pattern TIMESTAMP_PATTERN (expand_time TIME_FORMAT t)"
    using y by (rule matches_timestamp)
  moreover have "sent fd (handle_request_c now junk fd) = Returns [health_response (expand_time TIME_FORMAT t)]"
    by (simp only: sent_c assms(1) reply_health [OF t])
  moreover have "sent fd (handle_request_cpp now junk fd) = Returns [health_response (expand_time TIME_FORMAT t)]"
    by (simp only: sent_cpp assms(2) reply_health [OF t])
  ultimately show ?thesis
    using t gmtime_inverse [OF t] by blast
qed

text \<open>
  The scenario of the specification: the request
  \<^verbatim>\<open>GET /health HTTP/1.1\<close> with a \<^verbatim>\<open>Host\<close> header, at the first second of 2024.
\<close>

lemma gmtime_2024:
  "gmtime 1704067200 = Some \<lparr>tm_sec = 0, tm_min = 0, tm_hour = 0, tm_mday = 1, tm_mon = 0, tm_year = 124\<rparr>"
  by code_simp

lemma timestamp_2024:
  "expand_time TIME_FORMAT \<lparr>tm_sec = 0, tm_min = 0, tm_hour = 0, tm_mday = 1, tm_mon = 0, tm_year = 124\<rparr>
   = ''2024-01-01T00:00:00Z''"
  by code_simp

theorem C3_health_response_witness:
  "route_c [] \<lparr>rx = Some (''GET /health HTTP/1.1'' @ CRLF @ ''Host: x'' @ CRLF @ CRLF),
                 writes = [], is_closed = False\<rparr> = Some Health
   \<and> route_cpp [] \<lparr>rx = Some (''GET /health HTTP/1.1'' @ CRLF @ ''Host: x'' @ CRLF @ CRLF),
                   writes = [], is_closed = False\<rparr> = Some Health
   \<and> four_digit_year 1704067200
   \<and> matches_pattern TIMESTAMP_PATTERN ''2024-01-01T00:00:00Z''
   \<and> sent \<lparr>rx = Some (''GET /health HTTP/1.1'' @ CRLF @ ''Host: x'' @ CRLF @ CRLF),
             writes = [], is_closed = False\<rparr>
        (handle_request_c 1704067200 []
          \<lparr>rx = Some (''GET /health HTTP/1.1'' @ CRLF @ ''Host: x'' @ CRLF @ CRLF),
             writes = [], is_closed = False\<rparr>)
       = Returns [health_response ''2024-01-01T00:00:00Z'']
   \<and> sent \<lparr>rx = Some (''GET /health HTTP/1.1'' @ CRLF @ ''Host: x'' @ CRLF @ CRLF),
             writes = [], is_closed = False\<rparr>
        (handle_request_cpp 1704067200 []
          \<lparr>rx = Some (''GET /health HTTP/1.1'' @ CRLF @ ''Host: x'' @ CRLF @ CRLF),
             writes = [], is_closed = False\<rparr>)
       = Returns [health_response ''2024-01-01T00:00:00Z'']"
proof -
  let ?fd = "\<lparr>rx = Some (''GET /health HTTP/1.1'' @ CRLF @ ''Host: x'' @ CRLF @ CRLF),
               writes = [], is_closed = False\<rparr>"
  have rc: "route_c [] ?fd = Some Health"
    by (simp add: route_c_eq received_eq BUFFER_SIZE_def c_str_def CRLF_def NUL_def)
  have rcpp: "route_cpp [] ?fd = Some Health"
    by (simp add: route_cpp_eq received_eq BUFFER_SIZE_def c_str_def CRLF_def NUL_def)
  have y: "four_digit_year 1704067200"
    by (simp add: four_digit_year_def)
  from C3_health_response [OF rc rcpp y] rc rcpp y show ?thesis
    by (simp add: gmtime_2024 timestamp_2024)
qed

text \<open>
  Claim C4. Whenever the received bytes do not contain \<^verbatim>\<open>GET /health\<close>,
  what is written is the response with status line \<^verbatim>\<open>200 OK\<close>,
  \<^verbatim>\<open>Content-Type: text/plain\<close> and the body
  \<^verbatim>\<open>Hello from agentkernel sandbox!\<close> with a newline after it.
\<close>

theorem C4_default_response:
  assumes "received fd = Some r" "\<not> sublist ''GET /health'' r"
  shows "sent fd (handle_request_c now junk fd) = Returns [default_response]
       \<and> sent fd (handle_request_cpp now junk fd) = Returns [default_response]"
proof -
  from assms(2) have "\<not> sublist ''GET /health'' (c_str r)"
    using sublist_c_str by blast
  with assms(1) show ?thesis
    by (simp add: sent_c sent_cpp route_c_eq route_cpp_eq reply_def)
qed

theorem C4_default_response_witness:
  "received \<lparr>rx = Some (''GET / HTTP/1.1'' @ CRLF @ CRLF), writes = [], is_closed = False\<rparr>
     = Some (''GET / HTTP/1.1'' @ CRLF @ CRLF)
   \<and> \<not> sublist ''GET /health'' (''GET / HTTP/1.1'' @ CRLF @ CRLF)
   \<and> sent \<lparr>rx = Some (''GET / HTTP/1.1'' @ CRLF @ CRLF), writes = [], is_closed = False\<rparr>
        (handle_request_c 0 ''old'' \<lparr>rx = Some (''GET / HTTP/1.1'' @ CRLF @ CRLF), writes = [], is_closed = False\<rparr>)
       = Returns [default_response]
   \<and> sent \<lparr>rx = Some (''GET / HTTP/1.1'' @ CRLF @ CRLF), writes = [], is_closed = False\<rparr>
        (handle_request_cpp 0 ''old'' \<lparr>rx = Some (''GET / HTTP/1.1'' @ CRLF @ CRLF), writes = [], is_closed = False\<rparr>)
       = Returns [default_response]"
proof -
  let ?fd = "\<lparr>rx = Some (''GET / HTTP/1.1'' @ CRLF @ CRLF), writes = [], is_closed = False\<rparr>"
  have r: "received ?fd = Some (''GET / HTTP/1.1'' @ CRLF @ CRLF)"
    by (simp add: received_eq BUFFER_SIZE_def CRLF_def)
  have n: "\<not> sublist ''GET /health'' (''GET / HTTP/1.1'' @ CRLF @ CRLF)"
    by (simp add: CRLF_def sublist_Cons_right)
  from C4_default_response [OF r n, of 0 "''old''"] r n show ?thesis
    by simp
qed

lemma received_None: "received fd = None \<longleftrightarrow> rx fd = None"
  by (simp add: received_eq)

text \<open>
  Claim C5. Whenever \<^verbatim>\<open>read\<close> fails, a handler writes one message to
  standard error and returns with nothing written to the socket. The failure
  does not reach the caller: the accept loop closes the socket and goes on
  with the next \<^verbatim>\<open>accept\<close>.
\<close>

theorem C5_read_failure:
  assumes "received fd = None"
  shows "handle_request_c now junk fd = Returns (fd, [Perror ''read''])
       \<and> handle_request_cpp now junk fd = Returns (fd, [Cerr ''Error reading from socket''])
       \<and> accept_loop_c (Accepted \<lparr>peer = fd, clock = now, stack_junk = junk\<rparr> # rest) p
           = accept_loop_c rest
               (p\<lparr>stderr := stderr p @ [Perror ''read''], served := served p @ [sys_close fd]\<rparr>)
       \<and> accept_loop_cpp (Accepted \<lparr>peer = fd, clock = now, stack_junk = junk\<rparr> # rest) p
           = accept_loop_cpp rest
               (p\<lparr>stderr := stderr p @ [Cerr ''Error reading from socket''],
                  served := served p @ [sys_close fd]\<rparr>)"
proof -
  from assms have "rx fd = None"
    by (simp add: received_None)
  then have "reference_handler d now fd = Returns (fd, [d])" for d
    by (simp add: reference_handler_def)
  then have "handle_request_c now junk fd = Returns (fd, [Perror ''read''])"
    "handle_request_cpp now junk fd = Returns (fd, [Cerr ''Error reading from socket''])"
    by (simp_all only: handle_request_c_reference handle_request_cpp_reference)
  then show ?thesis
    by simp
qed

theorem C5_read_failure_witness:
  "received \<lparr>rx = None, writes = [], is_closed = False\<rparr> = None
   \<and> handle_request_c 0 [] \<lparr>rx = None, writes = [], is_closed = False\<rparr>
       = Returns (\<lparr>rx = None, writes = [], is_closed = False\<rparr>, [Perror ''read''])
   \<and> handle_request_cpp 0 [] \<lparr>rx = None, writes = [], is_closed = False\<rparr>
       = Returns (\<lparr>rx = None, writes = [], is_closed = False\<rparr>, [Cerr ''Error reading from socket''])
   \<and> accept_loop_c
        [Accepted \<lparr>peer = \<lparr>rx = None, writes = [], is_closed = False\<rparr>, clock = 0, stack_junk = []\<rparr>]
        \<lparr>status = Accepting, stdout = [], stderr = [], served = []\<rparr>
       = \<lparr>status = Accepting, stdout = [], stderr = [Perror ''read''],
            served = [\<lparr>rx = None, writes = [], is_closed = True\<rparr>]\<rparr>
   \<and> accept_loop_cpp
        [Accepted \<lparr>peer = \<lparr>rx = None, writes = [], is_closed = False\<rparr>, clock = 0, stack_junk = []\<rparr>]
        \<lparr>status = Accepting, stdout = [], stderr = [], served = []\<rparr>
       = \<lparr>status = Accepting, stdout = [], stderr = [Cerr ''Error reading from socket''],
            served = [\<lparr>rx = None, writes = [], is_closed = True\<rparr>]\<rparr>"
proof -
  have r: "received \<lparr>rx = None, writes = [], is_closed = False\<rparr> = None"
    by (simp add: received_None)
  from C5_read_failure [OF r, of 0 "[]" "[]" "\<lparr>status = Accepting, stdout = [], stderr = [], served = []\<rparr>"] r
  show ?thesis
    by (simp add: sys_close_def)
qed

lemma sys_read_cases:
  assumes "sys_read fd buf count = (bytes_read, buffer, fd')"
  obtains (failed) "rx fd = None" "bytes_read = - 1" "buffer = buf" "fd' = fd"
  | (delivered) bytes where "rx fd = Some bytes" "bytes_read = int (length (take count bytes))"
      "buffer = store buf (take count bytes)" "fd' = fd\<lparr>rx := Some (drop count bytes)\<rparr>"
  using assms by (cases "rx fd") (auto simp: sys_read_def)

lemma length_store: "length s \<le> length a \<Longrightarrow> length (store a s) = length a"
  by (simp add: store_def)

lemma take_store: "take (length s) (store a s) = s"
  by (simp add: store_def)

text \<open>
  Claim C6. The one \<^verbatim>\<open>read\<close> call of a handler takes at most 4095 bytes.
  The array keeps its 4096 elements, the index \<open>bytes_read\<close> at which the
  NUL is stored lies inside it, and what the peer sent beyond the first 4095
  bytes stays unread: the response is the one for the first 4095 bytes alone.
\<close>

theorem C6_read_bounds:
  assumes "sys_read fd (auto_array BUFFER_SIZE junk) (BUFFER_SIZE - 1) = (bytes_read, buffer, fd')"
  shows "- 1 \<le> bytes_read \<and> bytes_read \<le> 4095 \<and> length buffer = 4096
       \<and> (if bytes_read < 0 then received fd = None \<and> fd' = fd
           else nat bytes_read < length buffer
              \<and> length (buffer[nat bytes_read := NUL]) = 4096
              \<and> buffer[nat bytes_read := NUL] ! nat bytes_read = NUL
              \<and> received fd = Some (take (nat bytes_read) buffer)
              \<and> map_option (take 4095) (rx fd) = received fd
              \<and> map_option (drop 4095) (rx fd) = rx fd')
       \<and> sent fd (handle_request_c now junk fd)
           = sent (fd\<lparr>rx := received fd\<rparr>) (handle_request_c now junk (fd\<lparr>rx := received fd\<rparr>))
       \<and> sent fd (handle_request_cpp now junk fd)
           = sent (fd\<lparr>rx := received fd\<rparr>) (handle_request_cpp now junk (fd\<lparr>rx := received fd\<rparr>))"
proof -
  have trunc: "received (fd\<lparr>rx := received fd\<rparr>) = received fd"
    by (cases "rx fd") (simp_all add: received_eq)
  have s: "sent fd (handle_request_c now junk fd)
           = sent (fd\<lparr>rx := received fd\<rparr>) (handle_request_c now junk (fd\<lparr>rx := received fd\<rparr>))"
    "sent fd (handle_request_cpp now junk fd)
           = sent (fd\<lparr>rx := received fd\<rparr>) (handle_request_cpp now junk (fd\<lparr>rx := received fd\<rparr>))"
    by (simp_all only: sent_c sent_cpp route_c_eq route_cpp_eq trunc)
  from assms show ?thesis
  proof (cases rule: sys_read_cases)
    case failed
    then show ?thesis
      using s by (simp add: length_auto_array BUFFER_SIZE_def received_None)
  next
    case (delivered bytes)
    let ?d = "take (BUFFER_SIZE - 1) bytes"
    have l: "length ?d \<le> 4095"
      by (simp add: BUFFER_SIZE_def)
    then have lb: "length buffer = 4096"
      by (simp add: delivered length_store length_auto_array BUFFER_SIZE_def)
    have n: "nat bytes_read = length ?d"
      by (simp add: delivered)
    have t: "take (nat bytes_read) buffer = ?d"
      unfolding delivered nat_int by (rule take_store)
    have "received fd = Some ?d"
      by (simp add: received_eq delivered)
    with l lb n t delivered s show ?thesis
      by (simp add: BUFFER_SIZE_def)
  qed
qed

text \<open>A peer that has sent 5000 bytes: 4095 are read, 905 stay behind.\<close>

theorem C6_read_bounds_witness:
  "sys_read \<lparr>rx = Some (replicate 5000 (CHR ''A'')), writes = [], is_closed = False\<rparr>
     (auto_array BUFFER_SIZE []) (BUFFER_SIZE - 1)
    = (4095, replicate 4095 (CHR ''A'') @ [NUL],
       \<lparr>rx = Some (replicate 905 (CHR ''A'')), writes = [], is_closed = False\<rparr>)
   \<and> length (replicate 4095 (CHR ''A'') @ [NUL]) = 4096
   \<and> received \<lparr>rx = Some (replicate 5000 (CHR ''A'')), writes = [], is_closed = False\<rparr>
       = Some (replicate 4095 (CHR ''A''))"
proof -
  let ?fd = "\<lparr>rx = Some (replicate 5000 (CHR ''A'')), writes = [], is_closed = False\<rparr>"
  have h: "sys_read ?fd (auto_array BUFFER_SIZE []) (BUFFER_SIZE - 1)
           = (4095, replicate 4095 (CHR ''A'') @ [NUL],
              \<lparr>rx = Some (replicate 905 (CHR ''A'')), writes = [], is_closed = False\<rparr>)"
    by (simp add: sys_read_def auto_array_def store_def BUFFER_SIZE_def)
  note c = C6_read_bounds [OF h, of 0]
  have n: "((4095::int) < 0) = False"
    by simp
  have "length (replicate 4095 (CHR ''A'') @ [NUL]) = 4096"
    using c by (elim conjE)
  moreover have "received ?fd = Some (take (nat 4095) (replicate 4095 (CHR ''A'') @ [NUL]))"
    using c unfolding n if_False by (elim conjE)
  then have "received ?fd = Some (replicate 4095 (CHR ''A''))"
    by simp
  ultimately show ?thesis
    using h by (intro conjI)
qed

lemma map_outcome_reference:
  "map_outcome fst (reference_handler d now fd) = map_outcome fst (reference_handler d' now fd)"
  by (cases "rx fd"; cases "gmtime now") (simp_all add: reference_handler_def Let_def)

text \<open>
  Claim C7. On the same socket and with the same clock reading, the handler of
  \<^verbatim>\<open>server.c\<close> and the handler of \<^verbatim>\<open>server.cpp\<close> take the same
  branch, write the same bytes and leave the socket in the same state,
  whatever their stacks held before.
\<close>

theorem C7_same_response:
  "map_outcome fst (handle_request_c now junk fd) = map_outcome fst (handle_request_cpp now junk' fd)
   \<and> route_c junk fd = route_cpp junk' fd
   \<and> sent fd (handle_request_c now junk fd) = sent fd (handle_request_cpp now junk' fd)"
  by (simp only: handle_request_c_reference handle_request_cpp_reference sent_reference
      route_c_eq route_cpp_eq map_outcome_reference [of "Perror ''read''" now fd "Cerr ''Error reading from socket''"]
      simp_thms)

theorem C7_same_response_witness:
  "map_outcome fst (handle_request_c 1704067200 ''left over''
      \<lparr>rx = Some ''GET /health'', writes = [], is_closed = False\<rparr>)
    = Returns \<lparr>rx = Some [], writes = [health_response ''2024-01-01T00:00:00Z''], is_closed = False\<rparr>
   \<and> map_outcome fst (handle_request_cpp 1704067200 []
      \<lparr>rx = Some ''GET /health'', writes = [], is_closed = False\<rparr>)
    = Returns \<lparr>rx = Some [], writes = [health_response ''2024-01-01T00:00:00Z''], is_closed = False\<rparr>"
proof -
  let ?fd = "\<lparr>rx = Some ''GET /health'', writes = [], is_closed = False\<rparr>"
  have "map_outcome fst (handle_request_cpp 1704067200 [] ?fd)
        = Returns \<lparr>rx = Some [], writes = [health_response ''2024-01-01T00:00:00Z''], is_closed = False\<rparr>"
    by (simp add: handle_request_cpp_reference reference_handler_def BUFFER_SIZE_def c_str_def NUL_def
        gmtime_2024 timestamp_2024)
  with C7_same_response [of 1704067200 "''left over''" ?fd "[]"] show ?thesis
    by simp
qed

lemma accept_loop_c_served:
  "map Some (served (accept_loop_c accepts p))
   = map Some (served p) @ takeWhile (\<lambda>s. s \<noteq> None) (map serve_c (connections accepts))"
proof (induction accepts arbitrary: p)
  case Nil
  then show ?case by simp
next
  case (Cons a rest)
  show ?case
  proof (cases a)
    case Accept_failed
    with Cons [of "p\<lparr>stderr := stderr p @ [Perror ''accept'']\<rparr>"] show ?thesis by simp
  next
    case (Accepted c)
    show ?thesis
    proof (cases "handle_request_c (clock c) (stack_junk c) (peer c)")
      case Undefined
      with Accepted show ?thesis by (simp add: serve_c_def)
    next
      case (Returns r)
      obtain fd msgs where r: "r = (fd, msgs)" by (cases r)
      from Cons [of "p\<lparr>stderr := stderr p @ msgs, served := served p @ [sys_close fd]\<rparr>"]
      show ?thesis by (simp add: Accepted Returns r serve_c_def)
    qed
  qed
qed

lemma accept_loop_cpp_served:
  "map Some (served (accept_loop_cpp accepts p))
   = map Some (served p) @ takeWhile (\<lambda>s. s \<noteq> None) (map serve_cpp (connections accepts))"
proof (induction accepts arbitrary: p)
  case Nil
  then show ?case by simp
next
  case (Cons a rest)
  show ?case
  proof (cases a)
    case Accept_failed
    with Cons [of "p\<lparr>stderr := stderr p @ [Cerr ''Accept failed'']\<rparr>"] show ?thesis by simp
  next
    case (Accepted c)
    show ?thesis
    proof (cases "handle_request_cpp (clock c) (stack_junk c) (peer c)")
      case Undefined
      with Accepted show ?thesis by (simp add: serve_cpp_def)
    next
      case (Returns r)
      obtain fd msgs where r: "r = (fd, msgs)" by (cases r)
      from Cons [of "p\<lparr>stderr := stderr p @ msgs, served := served p @ [sys_close fd]\<rparr>"]
      show ?thesis by (simp add: Accepted Returns r serve_cpp_def)
    qed
  qed
qed

lemma reply_not_health: "r \<noteq> Some Health \<Longrightarrow> reply r now = reply r now'"
  by (cases r) (auto simp: reply_def split: route.splits)

lemma no_health_in_padding: "\<not> sublist ''GET /health'' (c_str (replicate n (CHR ''A'')))"
proof
  assume "sublist ''GET /health'' (c_str (replicate n (CHR ''A'')))"
  then have "sublist ''GET /health'' (replicate n (CHR ''A''))"
    by (rule sublist_c_str)
  then have "set ''GET /health'' \<subseteq> set (replicate n (CHR ''A''))"
    by (rule set_mono_sublist)
  then show False
    by auto
qed

text \<open>
  Claim C8. Two runs of a handler that read the same bytes take the same
  branch, whatever the stack held, whatever the peer sent beyond the bytes
  read and whatever the clocks show. With equal clock readings they write the
  same response; with different ones the responses differ at most by being the
  health response for the run's own clock reading. In the accept loop the
  socket served for a connection depends on that connection alone, not on the
  connections before it or on the state of the process.
\<close>

theorem C8_deterministic:
  assumes "received fd1 = received fd2"
  shows "route_c junk1 fd1 = route_c junk2 fd2
       \<and> route_cpp junk1 fd1 = route_cpp junk2 fd2
       \<and> sent fd1 (handle_request_c now junk1 fd1) = sent fd2 (handle_request_c now junk2 fd2)
       \<and> sent fd1 (handle_request_cpp now junk1 fd1) = sent fd2 (handle_request_cpp now junk2 fd2)
       \<and> sent fd1 (handle_request_c now1 junk1 fd1)
           = (if route_c junk1 fd1 = Some Health then reply (Some Health) now1
              else sent fd2 (handle_request_c now2 junk2 fd2))
       \<and> sent fd1 (handle_request_cpp now1 junk1 fd1)
           = (if route_cpp junk1 fd1 = Some Health then reply (Some Health) now1
              else sent fd2 (handle_request_cpp now2 junk2 fd2))
       \<and> map Some (served (accept_loop_c accepts p))
           = map Some (served p) @ takeWhile (\<lambda>s. s \<noteq> None) (map serve_c (connections accepts))
       \<and> map Some (served (accept_loop_cpp accepts p))
           = map Some (served p) @ takeWhile (\<lambda>s. s \<noteq> None) (map serve_cpp (connections accepts))"
proof -
  have rc: "route_c junk1 fd1 = route_c junk2 fd2"
    and rcpp: "route_cpp junk1 fd1 = route_cpp junk2 fd2"
    using assms by (simp_all add: route_c_eq route_cpp_eq)
  have "sent fd1 (handle_request_c now1 junk1 fd1)
        = (if route_c junk1 fd1 = Some Health then reply (Some Health) now1
           else sent fd2 (handle_request_c now2 junk2 fd2))"
    using rc reply_not_health [of "route_c junk2 fd2" now1 now2] by (simp add: sent_c)
  moreover have "sent fd1 (handle_request_cpp now1 junk1 fd1)
        = (if route_cpp junk1 fd1 = Some Health then reply (Some Health) now1
           else sent fd2 (handle_request_cpp now2 junk2 fd2))"
    using rcpp reply_not_health [of "route_cpp junk2 fd2" now1 now2] by (simp add: sent_cpp)
  moreover have "sent fd1 (handle_request_c now junk1 fd1) = sent fd2 (handle_request_c now junk2 fd2)"
    "sent fd1 (handle_request_cpp now junk1 fd1) = sent fd2 (handle_request_cpp now junk2 fd2)"
    using rc rcpp by (simp_all add: sent_c sent_cpp)
  ultimately show ?thesis
    using rc rcpp accept_loop_c_served [of accepts p] accept_loop_cpp_served [of accepts p]
    by (intro conjI)
qed

text \<open>
  A payload of 5000 bytes and its first 4095 bytes, read at different times,
  the first into a stack that still holds \<^verbatim>\<open>GET /health\<close>.
\<close>

theorem C8_deterministic_witness:
  "received \<lparr>rx = Some (replicate 5000 (CHR ''A'')), writes = [], is_closed = False\<rparr>
     = received \<lparr>rx = Some (replicate 4095 (CHR ''A'')), writes = [], is_closed = False\<rparr>
   \<and> route_c ''GET /health'' \<lparr>rx = Some (replicate 5000 (CHR ''A'')), writes = [], is_closed = False\<rparr>
       = Some Default_route
   \<and> route_c [] \<lparr>rx = Some (replicate 4095 (CHR ''A'')), writes = [], is_closed = False\<rparr>
       = Some Default_route
   \<and> sent \<lparr>rx = Some (replicate 5000 (CHR ''A'')), writes = [], is_closed = False\<rparr>
        (handle_request_c 0 ''GET /health''
          \<lparr>rx = Some (replicate 5000 (CHR ''A'')), writes = [], is_closed = False\<rparr>)
       = Returns [default_response]
   \<and> sent \<lparr>rx = Some (replicate 4095 (CHR ''A'')), writes = [], is_closed = False\<rparr>
        (handle_request_c 1704067200 []
          \<lparr>rx = Some (replicate 4095 (CHR ''A'')), writes = [], is_closed = False\<rparr>)
       = Returns [default_response]"
proof -
  let ?fd1 = "\<lparr>rx = Some (replicate 5000 (CHR ''A'')), writes = [], is_closed = False\<rparr>"
  let ?fd2 = "\<lparr>rx = Some (replicate 4095 (CHR ''A'')), writes = [], is_closed = False\<rparr>"
  have r1: "received ?fd1 = Some (replicate 4095 (CHR ''A''))"
    and r2: "received ?fd2 = Some (replicate 4095 (CHR ''A''))"
    by (simp_all add: received_eq BUFFER_SIZE_def)
  then have h: "received ?fd1 = received ?fd2"
    by simp
  note c = C8_deterministic [OF h, of "''GET /health''" "[]" 0 0 1704067200 "[]"
      "\<lparr>status = Accepting, stdout = [], stderr = [], served = []\<rparr>"]
  have d2: "route_c [] ?fd2 = Some Default_route"
    by (simp only: route_c_eq r2 option.map no_health_in_padding if_False)
  with c have d1: "route_c ''GET /health'' ?fd1 = Some Default_route"
    by simp
  have s2: "sent ?fd2 (handle_request_c 1704067200 [] ?fd2) = Returns [default_response]"
    by (simp only: sent_c d2) (simp add: reply_def)
  have n: "(Some Default_route = Some Health) = False"
    by simp
  from c have "sent ?fd1 (handle_request_c 0 ''GET /health'' ?fd1)
           = (if route_c ''GET /health'' ?fd1 = Some Health then reply (Some Health) 0
              else sent ?fd2 (handle_request_c 1704067200 [] ?fd2))"
    by (elim conjE)
  then have s1: "sent ?fd1 (handle_request_c 0 ''GET /health'' ?fd1) = Returns [default_response]"
    unfolding d1 n if_False s2 .
  from h d1 d2 s1 s2 show ?thesis
    by (intro conjI)
qed

lemma stdout_accept_loop_c: "stdout (accept_loop_c accepts p) = stdout p"
proof (induction accepts arbitrary: p)
  case Nil
  then show ?case by simp
next
  case (Cons a rest)
  show ?case
  proof (cases a)
    case Accept_failed
    with Cons [of "p\<lparr>stderr := stderr p @ [Perror ''accept'']\<rparr>"] show ?thesis by simp
  next
    case (Accepted c)
    show ?thesis
    proof (cases "handle_request_c (clock c) (stack_junk c) (peer c)")
      case Undefined
      with Accepted show ?thesis by simp
    next
      case (Returns r)
      obtain fd msgs where r: "r = (fd, msgs)" by (cases r)
      from Cons [of "p\<lparr>stderr := stderr p @ msgs, served := served p @ [sys_close fd]\<rparr>"]
      show ?thesis by (simp add: Accepted Returns r)
    qed
  qed
qed

lemma stdout_accept_loop_cpp: "stdout (accept_loop_cpp accepts p) = stdout p"
proof (induction accepts arbitrary: p)
  case Nil
  then show ?case by simp
next
  case (Cons a rest)
  show ?case
  proof (cases a)
    case Accept_failed
    with Cons [of "p\<lparr>stderr := stderr p @ [Cerr ''Accept failed'']\<rparr>"] show ?thesis by simp
  next
    case (Accepted c)
    show ?thesis
    proof (cases "handle_request_cpp (clock c) (stack_junk c) (peer c)")
      case Undefined
      with Accepted show ?thesis by simp
    next
      case (Returns r)
      obtain fd msgs where r: "r = (fd, msgs)" by (cases r)
      from Cons [of "p\<lparr>stderr := stderr p @ msgs, served := served p @ [sys_close fd]\<rparr>"]
      show ?thesis by (simp add: Accepted Returns r)
    qed
  qed
qed

lemma digit_char_8: "digit_char 8 = CHR ''8''"
proof -
  have "(of_char (digit_char 8) :: nat) = of_char (CHR ''8'')"
    by (simp add: digit_char_def)
  then show ?thesis
    by (simp only: of_char_eq_iff)
qed

lemma main_c_started:
  assumes "0 \<le> socket_result os" "0 \<le> bind_result os" "0 \<le> listen_result os"
  shows "main_c os accepts =
           accept_loop_c accepts
             \<lparr>status = Accepting, stdout = [''C server listening on port '' @ show_int PORT @ LF],
                stderr = [], served = []\<rparr>"
  using assms by (simp add: main_c_def)

lemma main_cpp_started:
  assumes "0 \<le> socket_result os" "0 \<le> bind_result os" "0 \<le> listen_result os"
  shows "main_cpp os accepts =
           accept_loop_cpp accepts
             \<lparr>status = Accepting, stdout = [''C++ server listening on port '' @ show_int PORT @ LF],
                stderr = [], served = []\<rparr>"
  using assms by (simp add: main_cpp_def)

lemma handle_health_2024:
  "handle_request_c 1704067200 [] \<lparr>rx = Some ''GET /health'', writes = [], is_closed = False\<rparr>
   = Returns (\<lparr>rx = Some [], writes = [health_response ''2024-01-01T00:00:00Z''], is_closed = False\<rparr>, [])"
  "handle_request_cpp 1704067200 [] \<lparr>rx = Some ''GET /health'', writes = [], is_closed = False\<rparr>
   = Returns (\<lparr>rx = Some [], writes = [health_response ''2024-01-01T00:00:00Z''], is_closed = False\<rparr>, [])"
  by (simp_all add: handle_request_c_reference handle_request_cpp_reference reference_handler_def
      BUFFER_SIZE_def c_str_def NUL_def gmtime_2024 timestamp_2024)

lemma handle_default_2024:
  "handle_request_c 1704067200 [] \<lparr>rx = Some ''GET /'', writes = [], is_closed = False\<rparr>
   = Returns (\<lparr>rx = Some [], writes = [default_response], is_closed = False\<rparr>, [])"
  "handle_request_cpp 1704067200 [] \<lparr>rx = Some ''GET /'', writes = [], is_closed = False\<rparr>
   = Returns (\<lparr>rx = Some [], writes = [default_response], is_closed = False\<rparr>, [])"
  by (simp_all add: handle_request_c_reference handle_request_cpp_reference reference_handler_def
      BUFFER_SIZE_def c_str_def NUL_def sublist_Cons_right)

text \<open>
  Claim C9. Once \<^verbatim>\<open>socket\<close>, \<^verbatim>\<open>bind\<close> and \<^verbatim>\<open>listen\<close> have
  succeeded, the process is waiting in \<^verbatim>\<open>accept\<close> again after any finite
  number of \<^verbatim>\<open>accept\<close> results: every failed \<^verbatim>\<open>accept\<close> has left
  its message on standard error, and every accepted connection has been
  handled and closed, in order. The clock readings are those that
  \<^verbatim>\<open>gmtime\<close> converts; on others the handlers have no defined behaviour.
\<close>

theorem C9_accept_loop:
  assumes "0 \<le> socket_result os" "0 \<le> bind_result os" "0 \<le> listen_result os"
    and "\<forall>c \<in> set (connections accepts). gmtime (clock c) \<noteq> None"
  shows "status (main_c os accepts) = Accepting
       \<and> stderr (main_c os accepts) = concat (map messages_c accepts)
       \<and> map Some (served (main_c os accepts)) = map serve_c (connections accepts)
       \<and> list_all is_closed (served (main_c os accepts))
       \<and> status (main_cpp os accepts) = Accepting
       \<and> stderr (main_cpp os accepts) = concat (map messages_cpp accepts)
       \<and> map Some (served (main_cpp os accepts)) = map serve_cpp (connections accepts)
       \<and> list_all is_closed (served (main_cpp os accepts))"
proof -
  let ?p = "\<lparr>status = Accepting, stdout = [''C server listening on port '' @ show_int PORT @ LF],
              stderr = [], served = []\<rparr>"
  let ?q = "\<lparr>status = Accepting, stdout = [''C++ server listening on port '' @ show_int PORT @ LF],
              stderr = [], served = []\<rparr>"
  from accept_loop_c_run [OF assms(4), of ?p]
  have c: "status (main_c os accepts) = Accepting"
    "stderr (main_c os accepts) = concat (map messages_c accepts)"
    "map Some (served (main_c os accepts)) = map serve_c (connections accepts)"
    unfolding main_c_started [OF assms(1-3)] by simp_all
  from accept_loop_cpp_run [OF assms(4), of ?q]
  have cpp: "status (main_cpp os accepts) = Accepting"
    "stderr (main_cpp os accepts) = concat (map messages_cpp accepts)"
    "map Some (served (main_cpp os accepts)) = map serve_cpp (connections accepts)"
    unfolding main_cpp_started [OF assms(1-3)] by simp_all
  have "list_all is_closed (served (main_c os accepts))"
    using c(3) serve_c_closed by (rule served_closed)
  moreover have "list_all is_closed (served (main_cpp os accepts))"
    using cpp(3) serve_cpp_closed by (rule served_closed)
  ultimately show ?thesis
    using c cpp by (intro conjI)
qed

text \<open>
  Two connections with a failed \<^verbatim>\<open>accept\<close> between them: the second is
  served after the first has been closed.
\<close>

theorem C9_accept_loop_witness:
  "status (main_c \<lparr>socket_result = 3, bind_result = 0, listen_result = 0\<rparr>
      [Accepted \<lparr>peer = \<lparr>rx = Some ''GET /health'', writes = [], is_closed = False\<rparr>,
                  clock = 1704067200, stack_junk = []\<rparr>,
       Accept_failed,
       Accepted \<lparr>peer = \<lparr>rx = Some ''GET /'', writes = [], is_closed = False\<rparr>,
                  clock = 1704067200, stack_junk = []\<rparr>]) = Accepting
   \<and> stderr (main_c \<lparr>socket_result = 3, bind_result = 0, listen_result = 0\<rparr>
      [Accepted \<lparr>peer = \<lparr>rx = Some ''GET /health'', writes = [], is_closed = False\<rparr>,
                  clock = 1704067200, stack_junk = []\<rparr>,
       Accept_failed,
       Accepted \<lparr>peer = \<lparr>rx = Some ''GET /'', writes = [], is_closed = False\<rparr>,
                  clock = 1704067200, stack_junk = []\<rparr>]) = [Perror ''accept'']
   \<and> served (main_c \<lparr>socket_result = 3, bind_result = 0, listen_result = 0\<rparr>
      [Accepted \<lparr>peer = \<lparr>rx = Some ''GET /health'', writes = [], is_closed = False\<rparr>,
                  clock = 1704067200, stack_junk = []\<rparr>,
       Accept_failed,
       Accepted \<lparr>peer = \<lparr>rx = Some ''GET /'', writes = [], is_closed = False\<rparr>,
                  clock = 1704067200, stack_junk = []\<rparr>])
       = [\<lparr>rx = Some [], writes = [health_response ''2024-01-01T00:00:00Z''], is_closed = True\<rparr>,
          \<lparr>rx = Some [], writes = [default_response], is_closed = True\<rparr>]"
proof -
  let ?os = "\<lparr>socket_result = 3, bind_result = 0, listen_result = 0\<rparr>"
  let ?accepts = "[Accepted \<lparr>peer = \<lparr>rx = Some ''GET /health'', writes = [], is_closed = False\<rparr>,
                  clock = 1704067200, stack_junk = []\<rparr>,
       Accept_failed,
       Accepted \<lparr>peer = \<lparr>rx = Some ''GET /'', writes = [], is_closed = False\<rparr>,
                  clock = 1704067200, stack_junk = []\<rparr>]"
  have os: "0 \<le> socket_result ?os" "0 \<le> bind_result ?os" "0 \<le> listen_result ?os"
    by simp_all
  have clocks: "\<forall>c \<in> set (connections ?accepts). gmtime (clock c) \<noteq> None"
    by (simp add: gmtime_2024)
  note c = C9_accept_loop [OF os clocks]
  have "status (main_c ?os ?accepts) = Accepting"
    using c by (elim conjE)
  moreover have "stderr (main_c ?os ?accepts) = concat (map messages_c ?accepts)"
    using c by (elim conjE)
  then have "stderr (main_c ?os ?accepts) = [Perror ''accept'']"
    by (simp add: handle_health_2024 handle_default_2024)
  moreover have "map Some (served (main_c ?os ?accepts)) = map serve_c (connections ?accepts)"
    using c by (elim conjE)
  then have "map Some (served (main_c ?os ?accepts))
      = map Some [\<lparr>rx = Some [], writes = [health_response ''2024-01-01T00:00:00Z''], is_closed = True\<rparr>,
          \<lparr>rx = Some [], writes = [default_response], is_closed = True\<rparr>]"
    by (simp add: serve_c_def handle_health_2024 handle_default_2024 sys_close_def)
  then have "served (main_c ?os ?accepts)
      = [\<lparr>rx = Some [], writes = [health_response ''2024-01-01T00:00:00Z''], is_closed = True\<rparr>,
          \<lparr>rx = Some [], writes = [default_response], is_closed = True\<rparr>]"
    by (simp only: map_eq_conv inj_map_eq_map [OF inj_Some])
  ultimately show ?thesis
    by (intro conjI)
qed

text \<open>
  Claim C10. The process exits, with code 1, exactly when \<^verbatim>\<open>socket\<close>,
  \<^verbatim>\<open>bind\<close> or \<^verbatim>\<open>listen\<close> fails, after one message on standard
  error that names the first call that failed. It exits with no other code
  and in no other case.
\<close>

theorem C10_exit_code:
  "(status (main_c os accepts) = Exited code
      \<longleftrightarrow> code = 1 \<and> (socket_result os < 0 \<or> bind_result os < 0 \<or> listen_result os < 0))
   \<and> (if socket_result os < 0
       then main_c os accepts
              = \<lparr>status = Exited 1, stdout = [], stderr = [Perror ''socket''], served = []\<rparr>
       else if bind_result os < 0
       then main_c os accepts
              = \<lparr>status = Exited 1, stdout = [], stderr = [Perror ''bind''], served = []\<rparr>
       else if listen_result os < 0
       then main_c os accepts
              = \<lparr>status = Exited 1, stdout = [], stderr = [Perror ''listen''], served = []\<rparr>
       else stdout (main_c os accepts) = [''C server listening on port 8080'' @ LF])
   \<and> (status (main_cpp os accepts) = Exited code
      \<longleftrightarrow> code = 1 \<and> (socket_result os < 0 \<or> bind_result os < 0 \<or> listen_result os < 0))
   \<and> (if socket_result os < 0
       then main_cpp os accepts
              = \<lparr>status = Exited 1, stdout = [], stderr = [Cerr ''Failed to create socket''], served = []\<rparr>
       else if bind_result os < 0
       then main_cpp os accepts
              = \<lparr>status = Exited 1, stdout = [], stderr = [Cerr ''Bind failed''], served = []\<rparr>
       else if listen_result os < 0
       then main_cpp os accepts
              = \<lparr>status = Exited 1, stdout = [], stderr = [Cerr ''Listen failed''], served = []\<rparr>
       else stdout (main_cpp os accepts) = [''C++ server listening on port 8080'' @ LF])"
proof (cases "socket_result os < 0 \<or> bind_result os < 0 \<or> listen_result os < 0")
  case True
  then consider (socket) "socket_result os < 0"
    | (bind) "\<not> socket_result os < 0" "bind_result os < 0"
    | (listen) "\<not> socket_result os < 0" "\<not> bind_result os < 0" "listen_result os < 0"
    by blast
  then show ?thesis
  proof cases
    case socket
    then have "main_c os accepts
                = \<lparr>status = Exited 1, stdout = [], stderr = [Perror ''socket''], served = []\<rparr>"
      "main_cpp os accepts
                = \<lparr>status = Exited 1, stdout = [], stderr = [Cerr ''Failed to create socket''], served = []\<rparr>"
      by (simp_all add: main_c_def main_cpp_def)
    with socket show ?thesis
      by simp
  next
    case bind
    then have "main_c os accepts
                = \<lparr>status = Exited 1, stdout = [], stderr = [Perror ''bind''], served = []\<rparr>"
      "main_cpp os accepts
                = \<lparr>status = Exited 1, stdout = [], stderr = [Cerr ''Bind failed''], served = []\<rparr>"
      by (simp_all add: main_c_def main_cpp_def)
    with bind show ?thesis
      by simp
  next
    case listen
    then have "main_c os accepts
                = \<lparr>status = Exited 1, stdout = [], stderr = [Perror ''listen''], served = []\<rparr>"
      "main_cpp os accepts
                = \<lparr>status = Exited 1, stdout = [], stderr = [Cerr ''Listen failed''], served = []\<rparr>"
      by (simp_all add: main_c_def main_cpp_def)
    with listen show ?thesis
      by simp
  qed
next
  case False
  then have ok: "0 \<le> socket_result os" "0 \<le> bind_result os" "0 \<le> listen_result os"
    by simp_all
  have port: "show_int PORT = ''8080''"
    by (simp add: show_int_def PORT_def decimal_4 digit_char_0 digit_char_8)
  have "status (main_c os accepts) \<noteq> Exited code"
    using status_accept_loop_c [of accepts "\<lparr>status = Accepting, stdout = [''C server listening on port '' @ show_int PORT @ LF],
                stderr = [], served = []\<rparr>"]
    unfolding main_c_started [OF ok] by auto
  moreover have "status (main_cpp os accepts) \<noteq> Exited code"
    using status_accept_loop_cpp [of accepts "\<lparr>status = Accepting, stdout = [''C++ server listening on port '' @ show_int PORT @ LF],
                stderr = [], served = []\<rparr>"]
    unfolding main_cpp_started [OF ok] by auto
  moreover have "stdout (main_c os accepts) = [''C server listening on port 8080'' @ LF]"
    "stdout (main_cpp os accepts) = [''C++ server listening on port 8080'' @ LF]"
    unfolding main_c_started [OF ok] main_cpp_started [OF ok] stdout_accept_loop_c stdout_accept_loop_cpp
    by (simp_all add: port)
  ultimately show ?thesis
    using False by simp
qed

theorem C10_exit_code_witness:
  "main_c \<lparr>socket_result = 3, bind_result = - 1, listen_result = 0\<rparr> [Accept_failed]
     = \<lparr>status = Exited 1, stdout = [], stderr = [Perror ''bind''], served = []\<rparr>
   \<and> main_cpp \<lparr>socket_result = 3, bind_result = - 1, listen_result = 0\<rparr> [Accept_failed]
     = \<lparr>status = Exited 1, stdout = [], stderr = [Cerr ''Bind failed''], served = []\<rparr>
   \<and> status (main_c \<lparr>socket_result = 3, bind_result = 0, listen_result = 0\<rparr> [Accept_failed])
     \<noteq> Exited 1"
proof -
  note f = C10_exit_code [of "\<lparr>socket_result = 3, bind_result = - 1, listen_result = 0\<rparr>" "[Accept_failed]" 1]
  note g = C10_exit_code [of "\<lparr>socket_result = 3, bind_result = 0, listen_result = 0\<rparr>" "[Accept_failed]" 1]
  from f have "main_c \<lparr>socket_result = 3, bind_result = - 1, listen_result = 0\<rparr> [Accept_failed]
     = \<lparr>status = Exited 1, stdout = [], stderr = [Perror ''bind''], served = []\<rparr>"
    "main_cpp \<lparr>socket_result = 3, bind_result = - 1, listen_result = 0\<rparr> [Accept_failed]
     = \<lparr>status = Exited 1, stdout = [], stderr = [Cerr ''Bind failed''], served = []\<rparr>"
    by simp_all
  moreover from g have "status (main_c \<lparr>socket_result = 3, bind_result = 0, listen_result = 0\<rparr> [Accept_failed])
     \<noteq> Exited 1"
    by simp
  ultimately show ?thesis
    by (intro conjI)
qed

end
